theory Spec2Isabelle
  imports Complex_Main
begin

section \<open>SAR Doppler subswath fusion: a model of \<open>DatasetManager.get_or_create\<close>\<close>

text \<open>
  The theory embeds the numerical core of \<open>sar_doppler/managers.py\<close>: the longitude
  correction of the stitched border, the per-subswath Doppler derivation, the two land
  bias blocks, the inter-swath jump estimation, the band correction and the export loop
  with the flag the method returns.

  Conventions of the embedding.
  \<^item> A numpy float is a value of \<open>fl\<close>: a real number, one of the two infinities, or NaN.
    Rounding, overflow and the sign of zero are not modelled; every finite operation is
    the exact real one.
  \<^item> A raster band is the list of its pixels in row-major order. Two bands of different
    size cannot be combined pixel by pixel: numpy raises, the model returns \<open>ShapeError\<close>.
  \<^item> \<open>swath_data\<close> is the source's dictionary from the subswath index to the
    \<open>Doppler\<close> object; an object is the map from band names to arrays. Reading a band
    the object cannot deliver raises in Nansat; the model returns \<open>BandError\<close>.
  \<^item> The methods of \<open>Doppler\<close>, \<open>Nansat\<close> and the Django catalogue are collaborators
    outside this repository. Their results enter through the record \<open>collaborators\<close>.
  \<^item> The source is Python 2 (it uses the \<open>print\<close> statement), so \<open>n_subswaths / 2\<close> is
    integer division.
  \<^item> Calls whose result nothing reads (\<open>get_azimuth_time\<close> at line 203, the catalogue
    writes and the figures) are taken to return; the returns of the method before line
    128 (lines 36, 46 and 114, when there is nothing to process) are outside the model.
\<close>

subsection \<open>Floating-point values\<close>

datatype fl = Fin real | PInf | MInf | NaN

fun isnan :: "fl \<Rightarrow> bool" where
  "isnan NaN = True"
| "isnan _ = False"

fun isfinite :: "fl \<Rightarrow> bool" where
  "isfinite (Fin _) = True"
| "isfinite _ = False"

fun fneg :: "fl \<Rightarrow> fl" where
  "fneg (Fin a) = Fin (- a)"
| "fneg PInf = MInf"
| "fneg MInf = PInf"
| "fneg NaN = NaN"

fun fadd :: "fl \<Rightarrow> fl \<Rightarrow> fl" where
  "fadd (Fin a) (Fin b) = Fin (a + b)"
| "fadd NaN _ = NaN"
| "fadd _ NaN = NaN"
| "fadd PInf MInf = NaN"
| "fadd MInf PInf = NaN"
| "fadd PInf _ = PInf"
| "fadd _ PInf = PInf"
| "fadd MInf _ = MInf"
| "fadd _ MInf = MInf"

definition fsub :: "fl \<Rightarrow> fl \<Rightarrow> fl" where
  "fsub x y = fadd x (fneg y)"

text \<open>The sign of a value that is not NaN: \<open>-1\<close>, \<open>0\<close> or \<open>1\<close>.\<close>

fun fsgn :: "fl \<Rightarrow> int" where
  "fsgn (Fin a) = (if a < 0 then - 1 else if a = 0 then 0 else 1)"
| "fsgn PInf = 1"
| "fsgn MInf = - 1"
| "fsgn NaN = 0"

definition signed_inf :: "int \<Rightarrow> fl" where
  "signed_inf s = (if s = 0 then NaN else if 0 < s then PInf else MInf)"

fun fmul :: "fl \<Rightarrow> fl \<Rightarrow> fl" where
  "fmul (Fin a) (Fin b) = Fin (a * b)"
| "fmul NaN _ = NaN"
| "fmul _ NaN = NaN"
| "fmul x y = signed_inf (fsgn x * fsgn y)"

fun fdiv :: "fl \<Rightarrow> fl \<Rightarrow> fl" where
  "fdiv (Fin a) (Fin b) = (if b = 0 then signed_inf (fsgn (Fin a)) else Fin (a / b))"
| "fdiv NaN _ = NaN"
| "fdiv _ NaN = NaN"
| "fdiv (Fin a) _ = Fin 0"
| "fdiv x (Fin b) = signed_inf (fsgn x * (if b < 0 then - 1 else 1))"
| "fdiv _ _ = NaN"

fun fsin :: "fl \<Rightarrow> fl" where
  "fsin (Fin a) = Fin (sin a)"
| "fsin _ = NaN"

fun fsqrt :: "fl \<Rightarrow> fl" where
  "fsqrt (Fin a) = (if a < 0 then NaN else Fin (sqrt a))"
| "fsqrt PInf = PInf"
| "fsqrt _ = NaN"

text \<open>\<open>x <= y\<close> on floats: false as soon as one side is NaN.\<close>

fun fle :: "fl \<Rightarrow> fl \<Rightarrow> bool" where
  "fle (Fin a) (Fin b) = (a \<le> b)"
| "fle NaN _ = False"
| "fle _ NaN = False"
| "fle MInf _ = True"
| "fle _ PInf = True"
| "fle _ _ = False"

subsection \<open>Errors\<close>

datatype error =
    BandError string
  | ShapeError
  | ValueError
  | IndexError
  | ExportError

definition bind_err :: "error + 'a \<Rightarrow> ('a \<Rightarrow> error + 'b) \<Rightarrow> error + 'b" where
  "bind_err m f = (case m of Inl e \<Rightarrow> Inl e | Inr x \<Rightarrow> f x)"

subsection \<open>Longitude correction of the border (lines 93 to 97)\<close>

text \<open>
  \<open>math.copysign(x, y)\<close>: the magnitude of \<open>x\<close> with the sign of \<open>y\<close>. A real zero
  stands for \<open>+0.0\<close>.
\<close>

definition copysign :: "real \<Rightarrow> real \<Rightarrow> real" where
  "copysign x y = (if y < 0 then - \<bar>x\<bar> else \<bar>x\<bar>)"

text \<open>
  The body of the loop over \<open>lons\<close>:
  \<open>copysign(acos(cos(llo * pi / 180.)) / pi * 180, sin(llo * pi / 180.))\<close>.
\<close>

definition normalize_lon :: "real \<Rightarrow> real" where
  "normalize_lon llo =
     copysign (arccos (cos (llo * pi / 180)) / pi * 180) (sin (llo * pi / 180))"

definition correct_lons :: "real list \<Rightarrow> real list" where
  "correct_lons lons = map normalize_lon lons"

subsection \<open>The radar wavenumber (line 156)\<close>

text \<open>\<open>wavenumber = 5331004416. / 299792458. * 2 * np.pi\<close>, the ASAR value.\<close>

definition wavenumber :: real where
  "wavenumber = 5331004416 / 299792458 * 2 * pi"

subsection \<open>Subswath objects, bands and numpy indexing\<close>

type_synonym band = "fl list"

record subswath =
  bands :: "string \<rightharpoonup> band"

text \<open>\<open>swath_data[i][name]\<close>: Nansat raises when it cannot find or read the band.\<close>

definition get_band :: "subswath \<Rightarrow> string \<Rightarrow> error + band" where
  "get_band sw name = (case bands sw name of None \<Rightarrow> Inl (BandError name) | Some a \<Rightarrow> Inr a)"

definition has_band :: "subswath \<Rightarrow> string \<Rightarrow> bool" where
  "has_band sw name = (bands sw name \<noteq> None)"

definition add_band :: "string \<Rightarrow> band \<Rightarrow> subswath \<Rightarrow> subswath" where
  "add_band name array sw = sw\<lparr>bands := (bands sw)(name \<mapsto> array)\<rparr>"

text \<open>
  A band added with a \<open>wkv\<close> parameter is named by the short name of that standard
  name. The four short names are the ones the source itself reads back
  (\<open>has_band('fww')\<close>, and the list \<open>ingest_creates\<close> with \<open>dca\<close>, \<open>fdg\<close>, \<open>fww\<close>, \<open>Ur\<close>).
\<close>

definition wkv_short_name :: "string \<Rightarrow> string" where
  "wkv_short_name wkv =
     (if wkv = ''anomaly_of_surface_backwards_doppler_centroid_frequency_shift_of_radar_wave''
        then ''dca''
      else if wkv = ''surface_backwards_doppler_frequency_shift_of_radar_wave_due_to_wind_waves''
        then ''fww''
      else if wkv = ''surface_backwards_doppler_frequency_shift_of_radar_wave_due_to_surface_velocity''
        then ''fdg''
      else if wkv = ''surface_radial_doppler_sea_water_velocity''
        then ''Ur''
      else wkv)"

definition add_band_wkv :: "string \<Rightarrow> band \<Rightarrow> subswath \<Rightarrow> subswath" where
  "add_band_wkv wkv array sw = add_band (wkv_short_name wkv) array sw"

text \<open>An arithmetic operator between two arrays of one shape.\<close>

definition pixelwise :: "(fl \<Rightarrow> fl \<Rightarrow> fl) \<Rightarrow> band \<Rightarrow> band \<Rightarrow> error + band" where
  "pixelwise f a b = (if length a = length b then Inr (map2 f a b) else Inl ShapeError)"

text \<open>Boolean-mask indexing \<open>a[msk]\<close>: the mask must have the shape of the array.\<close>

definition select :: "bool list \<Rightarrow> 'a list \<Rightarrow> error + 'a list" where
  "select msk a =
     (if length msk = length a then Inr (map snd (filter fst (zip msk a))) else Inl IndexError)"

text \<open>\<open>np.argwhere(msk)\<close> and \<open>np.where(msk)\<close>: the positions that hold true.\<close>

definition argwhere :: "bool list \<Rightarrow> nat list" where
  "argwhere msk = filter (\<lambda>j. msk ! j) [0..<length msk]"

text \<open>Indexing with an array of positions \<open>a[idx]\<close>: a position past the end raises.\<close>

definition take_pixels :: "'a list \<Rightarrow> nat list \<Rightarrow> error + 'a list" where
  "take_pixels a idx =
     (if list_all (\<lambda>j. j < length a) idx then Inr (map (\<lambda>j. a ! j) idx) else Inl IndexError)"

text \<open>\<open>vcurrent[valid_doppler != 2] = np.nan\<close>.\<close>

definition mask_invalid :: "band \<Rightarrow> band \<Rightarrow> error + band" where
  "mask_invalid vcurrent valid_doppler =
     (if length valid_doppler = length vcurrent
      then Inr (map2 (\<lambda>v f. if f \<noteq> Fin 2 then NaN else v) vcurrent valid_doppler)
      else Inl IndexError)"

text \<open>A \<open>for i in ...\<close> loop over a state, left at the first exception.\<close>

fun for_range :: "nat list \<Rightarrow> (nat \<Rightarrow> 's \<Rightarrow> error + 's) \<Rightarrow> 's \<Rightarrow> error + 's" where
  "for_range [] body s = Inr s"
| "for_range (i # rest) body s =
     (case body i s of Inl e \<Rightarrow> Inl e | Inr s' \<Rightarrow> for_range rest body s')"

text \<open>The same loop when each turn only yields a value.\<close>

fun collect :: "nat list \<Rightarrow> (nat \<Rightarrow> error + 'a) \<Rightarrow> error + 'a list" where
  "collect [] body = Inr []"
| "collect (i # rest) body =
     (case body i of Inl e \<Rightarrow> Inl e
      | Inr v \<Rightarrow> (case collect rest body of Inl e \<Rightarrow> Inl e | Inr vs \<Rightarrow> Inr (v # vs)))"

definition n_subswaths :: nat where
  "n_subswaths = 5"

subsection \<open>NaN-aware statistics of numpy\<close>

definition fsum :: "fl list \<Rightarrow> fl" where
  "fsum xs = foldl fadd (Fin 0) xs"

definition nanmean :: "fl list \<Rightarrow> fl" where
  "nanmean xs =
     (let v = filter (\<lambda>x. \<not> isnan x) xs
      in if v = [] then NaN else fdiv (fsum v) (Fin (real (length v))))"

definition nanstd :: "fl list \<Rightarrow> fl" where
  "nanstd xs =
     (let v = filter (\<lambda>x. \<not> isnan x) xs
      in if v = [] then NaN
         else let avg = fdiv (fsum v) (Fin (real (length v)));
                  sqr = map (\<lambda>x. fmul (fsub x avg) (fsub x avg)) v
              in fsqrt (fdiv (fsum sqr) (Fin (real (length v)))))"

fun finsert :: "fl \<Rightarrow> fl list \<Rightarrow> fl list" where
  "finsert x [] = [x]"
| "finsert x (y # ys) = (if fle x y then x # y # ys else y # finsert x ys)"

definition fsort :: "fl list \<Rightarrow> fl list" where
  "fsort xs = foldr finsert xs []"

definition nanmedian :: "fl list \<Rightarrow> fl" where
  "nanmedian xs =
     (let v = fsort (filter (\<lambda>x. \<not> isnan x) xs); n = length v
      in if v = [] then NaN
         else if odd n then v ! (n div 2)
         else fdiv (fadd (v ! (n div 2 - 1)) (v ! (n div 2))) (Fin 2))"

text \<open>\<open>np.median\<close> of an array of finite values; NaN for the empty array.\<close>

definition median :: "real list \<Rightarrow> fl" where
  "median xs =
     (let v = sort xs; n = length v
      in if v = [] then NaN
         else if odd n then Fin (v ! (n div 2))
         else Fin ((v ! (n div 2 - 1) + v ! (n div 2)) / 2))"

subsection \<open>Collaborators\<close>

text \<open>
  \<open>Nansat(array=raw_fdg, domain=swath).reproject(d)\<close> yields, on the common grid, the
  coverage mask \<open>swathmask\<close> and band 1.
\<close>

record geocoded =
  swathmask :: band
  band1 :: band

text \<open>
  What the calls into \<open>sardoppler\<close>, \<open>nansat\<close> and the catalogue return for a subswath
  object, as functions of the object at the time of the call: \<open>anomaly()\<close>, whether the
  query for NCEP wind fields within three hours found one (\<open>wind\<close>),
  \<open>wind_waves_doppler\<close>, \<open>geophysical_doppler_shift\<close> with and without a wind field,
  \<open>corrected_sigma0()\<close>, the polarization, the reprojection of \<open>raw_fdg\<close> on the common
  grid, whether \<open>export\<close> writes its file, and the object after its own \<open>reproject\<close>.
\<close>

record collaborators =
  anomaly :: "subswath \<Rightarrow> band"
  wind :: "subswath \<Rightarrow> bool"
  wind_waves_doppler :: "subswath \<Rightarrow> band"
  geophysical_doppler_shift :: "bool \<Rightarrow> subswath \<Rightarrow> band"
  corrected_sigma0 :: "subswath \<Rightarrow> band"
  polarization :: "subswath \<Rightarrow> string"
  geocode :: "subswath \<Rightarrow> band \<Rightarrow> geocoded"
  export_ok :: "subswath \<Rightarrow> bool"
  reproject :: "subswath \<Rightarrow> subswath"

subsection \<open>Per-subswath Doppler derivation (lines 128 to 197)\<close>

text \<open>\<open>swath_data[i]['incidence_angle'] * np.pi / 180.\<close>\<close>

definition to_theta :: "band \<Rightarrow> band" where
  "to_theta inci = map (\<lambda>x. fdiv (fmul x (Fin pi)) (Fin 180)) inci"

text \<open>\<open>-np.pi * d / (wavenumber * np.sin(theta))\<close> at one pixel.\<close>

definition doppler_velocity :: "fl \<Rightarrow> fl \<Rightarrow> fl" where
  "doppler_velocity d theta = fdiv (fmul (Fin (- pi)) d) (fmul (Fin wavenumber) (fsin theta))"

text \<open>The body of the loop once the incidence angle has been read (lines 136 to 197).\<close>

definition derive_doppler :: "collaborators \<Rightarrow> subswath \<Rightarrow> error + subswath" where
  "derive_doppler c sw0 =
     (let sw1 = add_band_wkv
                  ''anomaly_of_surface_backwards_doppler_centroid_frequency_shift_of_radar_wave''
                  (anomaly c sw0) sw0;
          pol = polarization c sw1
      in bind_err
           (if wind c sw1 then
              (let fww = wind_waves_doppler c sw1;
                   sw2 = add_band_wkv
                     ''surface_backwards_doppler_frequency_shift_of_radar_wave_due_to_wind_waves''
                     fww sw1;
                   fdg = geophysical_doppler_shift c True sw2
               in bind_err (get_band sw2 ''incidence_angle'') (\<lambda>inci.
                  bind_err (pixelwise fsub fdg fww) (\<lambda>d.
                  bind_err (pixelwise doppler_velocity d (to_theta inci)) (\<lambda>vcurrent.
                  Inr (add_band ''raw_Ur'' vcurrent sw2, fdg)))))
            else
              (let fdg = geophysical_doppler_shift c False sw1
               in bind_err (get_band sw1 ''incidence_angle'') (\<lambda>inci.
                  bind_err (pixelwise doppler_velocity fdg (to_theta inci)) (\<lambda>v.
                  bind_err (get_band sw1 ''valid_doppler'') (\<lambda>valid_doppler.
                  bind_err (mask_invalid v valid_doppler) (\<lambda>vcurrent.
                  Inr (add_band ''raw_Ur'' vcurrent sw1, fdg)))))))
           (\<lambda>(sw3, fdg).
              let sw4 = add_band ''raw_fdg'' fdg sw3
              in Inr (add_band (''corrected_sigma0_'' @ pol) (corrected_sigma0 c sw4) sw4)))"

text \<open>
  One turn of the loop. \<open>is_corrupted\<close> is set to \<open>False\<close> at the top of every turn
  (line 129); an unreadable incidence angle sets it and skips the rest of the turn.
\<close>

definition derive_step ::
  "collaborators \<Rightarrow> nat \<Rightarrow> (nat \<Rightarrow> subswath) \<times> bool \<Rightarrow> error + (nat \<Rightarrow> subswath) \<times> bool" where
  "derive_step c i st =
     (let swath_data = fst st
      in case get_band (swath_data i) ''incidence_angle'' of
           Inl e \<Rightarrow> Inr (swath_data, True)
         | Inr inci \<Rightarrow>
             bind_err (derive_doppler c (swath_data i)) (\<lambda>sw.
             Inr (swath_data(i := sw), False)))"

subsection \<open>The land bias, computed twice (lines 200 to 231)\<close>

text \<open>\<open>np.argmax\<close>: the first position that holds the maximum.\<close>

fun argmax :: "nat list \<Rightarrow> nat" where
  "argmax [] = 0"
| "argmax (x # xs) = (if list_all (\<lambda>y. y \<le> x) xs then 0 else Suc (argmax xs))"

text \<open>Lines 211 to 214 and 224 to 227.\<close>

definition choose_i_ref :: "nat list \<Rightarrow> nat" where
  "choose_i_ref numberOfLandPixels =
     (if sum_list numberOfLandPixels \<noteq> 0 then argmax numberOfLandPixels
      else n_subswaths div 2)"

definition count_true :: "bool list \<Rightarrow> nat" where
  "count_true msk = length (filter id msk)"

definition std_threshold :: "band \<Rightarrow> fl" where
  "std_threshold dc_std = fadd (nanmedian dc_std) (fmul (Fin 2) (nanstd dc_std))"

text \<open>
  The body of the first counting loop (lines 203 to 210). Besides the count it reads
  \<open>dc_std\<close> and \<open>raw_fdg\<close> of every subswath and builds \<open>dc\<close>, which nothing uses.
\<close>

definition land_pixels_first :: "subswath \<Rightarrow> error + nat" where
  "land_pixels_first sw =
     bind_err (get_band sw ''valid_land_doppler'') (\<lambda>vl.
     let landmask = map (\<lambda>x. x = Fin 1) vl
     in bind_err (get_band sw ''dc_std'') (\<lambda>b.
        bind_err (select landmask b) (\<lambda>dc_std.
        let std_thres = std_threshold dc_std
        in bind_err (select (map (\<lambda>d. fle d std_thres) dc_std) (argwhere landmask))
             (\<lambda>pixelCoords.
        bind_err (get_band sw ''raw_fdg'') (\<lambda>raw.
        bind_err (take_pixels raw pixelCoords) (\<lambda>dc.
        Inr (count_true landmask)))))))"

text \<open>Lines 215 to 218 on the reference subswath.\<close>

definition dc_offset_first :: "subswath \<Rightarrow> error + fl" where
  "dc_offset_first sw =
     bind_err (get_band sw ''valid_land_doppler'') (\<lambda>vl.
     let landmask = map (\<lambda>x. x = Fin 1) vl
     in bind_err (get_band sw ''dc_std'') (\<lambda>b.
        bind_err (select landmask b) (\<lambda>dc_std.
        let std_thres = std_threshold dc_std
        in bind_err (get_band sw ''raw_fdg'') (\<lambda>raw.
           bind_err (select landmask raw) (\<lambda>land_fdg.
           bind_err (select (map (\<lambda>d. fle d std_thres) dc_std) land_fdg) (\<lambda>retained.
           Inr (nanmean retained)))))))"

definition land_bias_first :: "(nat \<Rightarrow> subswath) \<Rightarrow> error + nat \<times> fl" where
  "land_bias_first swath_data =
     bind_err (collect [0..<n_subswaths] (\<lambda>i. land_pixels_first (swath_data i)))
       (\<lambda>numberOfLandPixels.
     let i_ref = choose_i_ref numberOfLandPixels
     in bind_err (dc_offset_first (swath_data i_ref)) (\<lambda>dc_offset.
        Inr (i_ref, dc_offset)))"

text \<open>The body of the second counting loop (line 223).\<close>

definition land_pixels_second :: "subswath \<Rightarrow> error + nat" where
  "land_pixels_second sw =
     bind_err (get_band sw ''valid_land_doppler'') (\<lambda>vl.
     Inr (count_true (map (\<lambda>x. x = Fin 1) vl)))"

text \<open>
  The land pixels of a subswath that pass the threshold on \<open>dc_std\<close>:
  \<open>raw_fdg[landmask][dc_std <= std_thres]\<close> of line 231.
\<close>

definition retained_pixels :: "subswath \<Rightarrow> error + band" where
  "retained_pixels sw =
     bind_err (get_band sw ''valid_land_doppler'') (\<lambda>vl.
     let landmask = map (\<lambda>x. x = Fin 1) vl
     in bind_err (get_band sw ''dc_std'') (\<lambda>b.
        bind_err (select landmask b) (\<lambda>dc_std.
        let std_thres = std_threshold dc_std
        in bind_err (get_band sw ''raw_fdg'') (\<lambda>raw.
           bind_err (select landmask raw) (\<lambda>land_fdg.
           select (map (\<lambda>d. fle d std_thres) dc_std) land_fdg)))))"

text \<open>Lines 228 to 231 on the reference subswath.\<close>

definition dc_offset_second :: "subswath \<Rightarrow> error + fl" where
  "dc_offset_second sw = bind_err (retained_pixels sw) (\<lambda>retained. Inr (nanmean retained))"

definition land_bias_second :: "(nat \<Rightarrow> subswath) \<Rightarrow> error + nat \<times> fl" where
  "land_bias_second swath_data =
     bind_err (collect [0..<n_subswaths] (\<lambda>i. land_pixels_second (swath_data i)))
       (\<lambda>numberOfLandPixels.
     let i_ref = choose_i_ref numberOfLandPixels
     in bind_err (dc_offset_second (swath_data i_ref)) (\<lambda>dc_offset.
        Inr (i_ref, dc_offset)))"

subsection \<open>Jumps between adjacent subswaths (lines 233 to 251)\<close>

text \<open>
  \<open>np.histogram(a, bins=n)\<close> for an integer \<open>n\<close>: the range is that of the data, widened
  by one half on each side when it is a single point; the edges are evenly spaced, every
  bin is closed on the left and the last one on both sides. Fewer than one bin raises.
\<close>

definition hist_range :: "real list \<Rightarrow> real \<times> real" where
  "hist_range a =
     (let lo = (if a = [] then 0 else Min (set a));
          hi = (if a = [] then 1 else Max (set a))
      in if lo = hi then (lo - 1 / 2, hi + 1 / 2) else (lo, hi))"

definition hist_edges :: "real list \<Rightarrow> nat \<Rightarrow> real list" where
  "hist_edges a bins =
     (let mn = fst (hist_range a); mx = snd (hist_range a)
      in map (\<lambda>j. mn + real j * (mx - mn) / real bins) [0..<bins + 1])"

definition hist_counts :: "real list \<Rightarrow> nat \<Rightarrow> nat list" where
  "hist_counts a bins =
     (let mn = fst (hist_range a); mx = snd (hist_range a);
          idx = map (\<lambda>v. min (bins - 1) (nat \<lfloor>(v - mn) * real bins / (mx - mn)\<rfloor>)) a
      in map (\<lambda>b. length (filter (\<lambda>k. k = b) idx)) [0..<bins])"

definition histogram :: "real list \<Rightarrow> nat \<Rightarrow> error + nat list \<times> real list" where
  "histogram a bins =
     (if bins < 1 then Inl ValueError else Inr (hist_counts a bins, hist_edges a bins))"

text \<open>
  \<open>np.convolve(a, v, mode='full')\<close>: entry \<open>k\<close> is the sum of \<open>a[j] * v[k - j]\<close> over the
  positions where both exist.
\<close>

definition convolve_full :: "real list \<Rightarrow> real list \<Rightarrow> real list" where
  "convolve_full a v =
     map (\<lambda>k. sum_list (map (\<lambda>j. if j \<le> k \<and> k - j < length v then a ! j * v ! (k - j) else 0)
                          [0..<length a]))
         [0..<length a + length v - 1]"

text \<open>
  \<open>np.convolve(a, v, mode='same')\<close>: the middle of the full convolution, as long as the
  longer argument. With \<open>n\<close> the length of the shorter one, it starts at entry
  \<open>n - 1 - n div 2\<close>. An empty argument raises.
\<close>

definition convolve_same :: "real list \<Rightarrow> real list \<Rightarrow> error + real list" where
  "convolve_same a v =
     (if a = [] \<or> v = [] then Inl ValueError
      else let n = min (length a) (length v)
           in Inr (take (max (length a) (length v)) (drop (n - 1 - n div 2) (convolve_full a v))))"

definition finite_values :: "fl list \<Rightarrow> real list" where
  "finite_values xs = concat (map (\<lambda>x. case x of Fin r \<Rightarrow> [r] | _ \<Rightarrow> []) xs)"

definition count_nonzero :: "nat list \<Rightarrow> nat" where
  "count_nonzero y = length (filter (\<lambda>c. c \<noteq> 0) y)"

text \<open>\<open>int(len(fdg_diff) ** (1/2.))\<close>\<close>

definition n_bins :: "real list \<Rightarrow> nat" where
  "n_bins fdg_diff = nat \<lfloor>sqrt (real (length fdg_diff))\<rfloor>"

text \<open>\<open>np.int(np.floor(sum(y != 0) ** (1/3.)) * 2 + 1)\<close>\<close>

definition window_length :: "nat list \<Rightarrow> nat" where
  "window_length y = nat (\<lfloor>root 3 (real (count_nonzero y))\<rfloor> * 2 + 1)"

text \<open>\<open>(x[:-1] + x[1:]) / 2.\<close>\<close>

definition bin_centers :: "real list \<Rightarrow> real list" where
  "bin_centers x = map2 (\<lambda>l r. (l + r) / 2) (butlast x) (tl x)"

text \<open>Lines 244 to 249, from the differences over the cells both subswaths cover.\<close>

definition jump_estimate :: "fl list \<Rightarrow> error + fl" where
  "jump_estimate diff =
     (let fdg_diff = finite_values diff
      in bind_err (histogram fdg_diff (n_bins fdg_diff)) (\<lambda>(y, x).
         let N = window_length y
         in bind_err (convolve_same (map real y) (replicate N (1 / real N))) (\<lambda>y_sm.
            bind_err (take_pixels (bin_centers x)
                        (argwhere (map (\<lambda>s. s = Max (set y_sm)) y_sm))) (\<lambda>at_max.
            Inr (median at_max)))))"

text \<open>Lines 242 and 243: the difference of band 1 where both coverage masks are set.\<close>

definition overlap_diff :: "geocoded \<Rightarrow> geocoded \<Rightarrow> error + fl list" where
  "overlap_diff g g_prev =
     bind_err (pixelwise fadd (swathmask g) (swathmask g_prev)) (\<lambda>both.
     let cells = argwhere (map (\<lambda>m. m = Fin 2) both)
     in bind_err (take_pixels (band1 g) cells) (\<lambda>a.
        bind_err (take_pixels (band1 g_prev) cells) (\<lambda>b.
        Inr (map2 fsub a b))))"

text \<open>\<open>np.cumsum\<close>\<close>

fun cumsum_from :: "fl \<Rightarrow> fl list \<Rightarrow> fl list" where
  "cumsum_from acc [] = []"
| "cumsum_from acc (x # xs) = fadd acc x # cumsum_from (fadd acc x) xs"

definition cumsum :: "fl list \<Rightarrow> fl list" where
  "cumsum xs = (case xs of [] \<Rightarrow> [] | x # rest \<Rightarrow> x # cumsum_from x rest)"

text \<open>
  Lines 250 and 251: \<open>fdg_jumps = np.cumsum(fdg_jumps)\<close>, then
  \<open>fdg_jumps -= fdg_jumps[i_ref]\<close>. The right-hand side is read once, as a scalar, before
  the array is changed in place.
\<close>

definition reference_jumps :: "fl list \<Rightarrow> nat \<Rightarrow> fl list" where
  "reference_jumps fdg_jumps i_ref =
     (let c = cumsum fdg_jumps; ref = c ! i_ref in map (\<lambda>x. fsub x ref) c)"

text \<open>
  Lines 236 to 251. \<open>fdg_jumps\<close> starts as five zeros; the entries 1 to 4 receive the
  estimates of the pairs \<open>(i - 1, i)\<close>.
\<close>

definition dc_jumps :: "collaborators \<Rightarrow> (nat \<Rightarrow> subswath) \<Rightarrow> nat \<Rightarrow> error + fl list" where
  "dc_jumps c swath_data i_ref =
     bind_err (collect [0..<n_subswaths]
                (\<lambda>i. bind_err (get_band (swath_data i) ''raw_fdg'') (\<lambda>raw.
                     Inr (geocode c (swath_data i) raw))))
       (\<lambda>geocoded_fdg.
     bind_err (collect [1..<n_subswaths]
                (\<lambda>i. bind_err (overlap_diff (geocoded_fdg ! i) (geocoded_fdg ! (i - 1)))
                       jump_estimate))
       (\<lambda>estimates.
     Inr (reference_jumps (Fin 0 # estimates) i_ref)))"

subsection \<open>Bias-corrected bands (lines 253 to 268)\<close>

text \<open>The body of the loop, for the subswath with jump \<open>fdg_jumps[i]\<close>.\<close>

definition add_corrected_bands :: "fl \<Rightarrow> fl \<Rightarrow> subswath \<Rightarrow> error + subswath" where
  "add_corrected_bands jump dc_offset sw0 =
     bind_err (get_band sw0 ''raw_fdg'') (\<lambda>raw.
     let fdg = map (\<lambda>x. fsub (fsub x jump) dc_offset) raw;
         sw1 = add_band_wkv
           ''surface_backwards_doppler_frequency_shift_of_radar_wave_due_to_surface_velocity''
           fdg sw0
     in bind_err (if has_band sw1 ''fww'' then get_band sw1 ''fww''
                  else Inr (map (\<lambda>x. Fin 0) fdg)) (\<lambda>fww.
        bind_err (get_band sw1 ''incidence_angle'') (\<lambda>inci.
        bind_err (pixelwise fsub fdg fww) (\<lambda>d.
        bind_err (pixelwise doppler_velocity d (to_theta inci)) (\<lambda>v.
        bind_err (get_band sw1 ''valid_doppler'') (\<lambda>valid_doppler.
        bind_err (mask_invalid v valid_doppler) (\<lambda>vcurrent.
        Inr (add_band_wkv ''surface_radial_doppler_sea_water_velocity'' vcurrent sw1))))))))"

definition correct_step ::
  "fl list \<Rightarrow> fl \<Rightarrow> nat \<Rightarrow> (nat \<Rightarrow> subswath) \<Rightarrow> error + (nat \<Rightarrow> subswath)" where
  "correct_step fdg_jumps dc_offset i swath_data =
     bind_err (add_corrected_bands (fdg_jumps ! i) dc_offset (swath_data i)) (\<lambda>sw.
     Inr (swath_data(i := sw)))"

subsection \<open>Export and the returned flag (lines 270 to 359)\<close>

text \<open>
  One turn of the export loop: the file is written, the object is reprojected, and the
  incidence angle is read again. When that read fails \<open>is_corrupted\<close> is set and the turn
  ends; nothing in this loop clears the flag.
\<close>

definition export_step ::
  "collaborators \<Rightarrow> nat \<Rightarrow> (nat \<Rightarrow> subswath) \<times> bool \<Rightarrow> error + (nat \<Rightarrow> subswath) \<times> bool" where
  "export_step c i st =
     (let swath_data = fst st; is_corrupted = snd st
      in if \<not> export_ok c (swath_data i) then Inl ExportError
         else let sw = reproject c (swath_data i)
              in case get_band sw ''incidence_angle'' of
                   Inl e \<Rightarrow> Inr (swath_data(i := sw), True)
                 | Inr inci \<Rightarrow> Inr (swath_data(i := sw), is_corrupted))"

text \<open>
  The method from line 128 on. It returns the dataset and \<open>not is_corrupted\<close>; the model
  returns the subswath objects in the place of the dataset.
\<close>

definition get_or_create ::
  "collaborators \<Rightarrow> (nat \<Rightarrow> subswath) \<Rightarrow> error + (nat \<Rightarrow> subswath) \<times> bool" where
  "get_or_create c swath_data0 =
     bind_err (for_range [0..<n_subswaths] (derive_step c) (swath_data0, False)) (\<lambda>st1.
     bind_err (land_bias_first (fst st1)) (\<lambda>first_bias.
     bind_err (land_bias_second (fst st1)) (\<lambda>second_bias.
     let i_ref = fst second_bias; dc_offset = snd second_bias
     in bind_err (dc_jumps c (fst st1) i_ref) (\<lambda>fdg_jumps.
        bind_err (for_range [0..<n_subswaths] (correct_step fdg_jumps dc_offset) (fst st1))
          (\<lambda>swath_data2.
        bind_err (for_range [0..<n_subswaths] (export_step c) (swath_data2, snd st1)) (\<lambda>st3.
        Inr (fst st3, \<not> snd st3)))))))"

subsection \<open>The jump estimate in the words of the specification\<close>

text \<open>
  A centred moving average of window length \<open>N\<close>: entry \<open>i\<close> is the sum of the entries at
  most \<open>N div 2\<close> places away from \<open>i\<close>, divided by \<open>N\<close>. Places outside the list count
  as zero.
\<close>

definition moving_average :: "nat \<Rightarrow> real list \<Rightarrow> real list" where
  "moving_average N y =
     map (\<lambda>i. sum_list (map (\<lambda>j. y ! j)
                 (filter (\<lambda>j. i \<le> j + N div 2 \<and> j \<le> i + N div 2) [0..<length y])) / real N)
         [0..<length y]"

text \<open>
  The estimate as the specification describes it, with the bin count the source
  computes: the finite differences, a histogram of \<open>floor(sqrt(n))\<close> bins, the counts
  smoothed by a centred moving average of length \<open>2 * floor(cbrt(non-empty bins)) + 1\<close>,
  and the median of the centres of the bins whose smoothed count is the largest.
\<close>

definition mode_of_histogram :: "fl list \<Rightarrow> fl" where
  "mode_of_histogram diff =
     (let samples = finite_values diff;
          bins = nat \<lfloor>sqrt (real (length samples))\<rfloor>;
          counts = hist_counts samples bins;
          centers = bin_centers (hist_edges samples bins);
          N = 2 * nat \<lfloor>root 3 (real (length (filter (\<lambda>c. c \<noteq> 0) counts)))\<rfloor> + 1;
          smoothed = moving_average N (map real counts)
      in median (map (\<lambda>b. centers ! b)
                   (filter (\<lambda>b. smoothed ! b = Max (set smoothed)) [0..<bins])))"

subsection \<open>The method with the land bias computed once\<close>

text \<open>
  The specification asks for one bias computation instead of the source's two. This is
  the method of \<open>get_or_create\<close> without the block of lines 200 to 218.
\<close>

definition get_or_create_once ::
  "collaborators \<Rightarrow> (nat \<Rightarrow> subswath) \<Rightarrow> error + (nat \<Rightarrow> subswath) \<times> bool" where
  "get_or_create_once c swath_data0 =
     bind_err (for_range [0..<n_subswaths] (derive_step c) (swath_data0, False)) (\<lambda>st1.
     bind_err (land_bias_second (fst st1)) (\<lambda>second_bias.
     let i_ref = fst second_bias; dc_offset = snd second_bias
     in bind_err (dc_jumps c (fst st1) i_ref) (\<lambda>fdg_jumps.
        bind_err (for_range [0..<n_subswaths] (correct_step fdg_jumps dc_offset) (fst st1))
          (\<lambda>swath_data2.
        bind_err (for_range [0..<n_subswaths] (export_step c) (swath_data2, snd st1)) (\<lambda>st3.
        Inr (fst st3, \<not> snd st3))))))"

subsection \<open>Readings of the bands a statement talks about\<close>

text \<open>The wind-wave band of a subswath at a pixel; the scalar 0 when it has none.\<close>

definition fww_at :: "subswath \<Rightarrow> nat \<Rightarrow> fl" where
  "fww_at sw p = (case bands sw ''fww'' of None \<Rightarrow> Fin 0 | Some fww \<Rightarrow> fww ! p)"

text \<open>A subswath is corrupted at load when its incidence angle cannot be read (line 132).\<close>

definition corrupted_at_load :: "subswath \<Rightarrow> bool" where
  "corrupted_at_load sw = (bands sw ''incidence_angle'' = None)"

subsection \<open>Example acquisitions\<close>

text \<open>A subswath object that holds nothing but a land-validity band.\<close>

definition land_only :: "band \<Rightarrow> subswath" where
  "land_only vl = \<lparr>bands = [''valid_land_doppler'' \<mapsto> vl]\<rparr>"


text \<open>Nine cells of the common grid that hold one value.\<close>

definition nine_of :: "'a \<Rightarrow> 'a list" where
  "nine_of v = [v, v, v, v, v, v, v, v, v]"


text \<open>
  A subswath as read from the file, two pixels wide: the first pixel is valid land, the
  second is neither land nor valid.
\<close>

definition raw_swath :: subswath where
  "raw_swath = \<lparr>bands =
     [''incidence_angle'' \<mapsto> [Fin 30, Fin 30],
      ''valid_doppler'' \<mapsto> [Fin 2, Fin 0],
      ''valid_land_doppler'' \<mapsto> [Fin 1, Fin 0],
      ''dc_std'' \<mapsto> [Fin 1, Fin 1]]\<rparr>"

text \<open>The same file with an incidence angle that cannot be read, and two land pixels.\<close>

definition unreadable_swath :: subswath where
  "unreadable_swath = \<lparr>bands =
     [''valid_doppler'' \<mapsto> [Fin 2, Fin 0],
      ''valid_land_doppler'' \<mapsto> [Fin 1, Fin 1],
      ''dc_std'' \<mapsto> [Fin 1, Fin 1]]\<rparr>"

text \<open>The subswath after the Doppler derivation, with a constant \<open>raw_fdg\<close> of 100 Hz.\<close>

definition derived_swath :: subswath where
  "derived_swath = add_band ''raw_fdg'' [Fin 100, Fin 100] raw_swath"

text \<open>A derived subswath without any land pixel.\<close>

definition no_land_swath :: subswath where
  "no_land_swath = \<lparr>bands =
     [''incidence_angle'' \<mapsto> [Fin 30, Fin 30],
      ''valid_doppler'' \<mapsto> [Fin 2, Fin 0],
      ''valid_land_doppler'' \<mapsto> [Fin 0, Fin 0],
      ''dc_std'' \<mapsto> [Fin 1, Fin 1],
      ''raw_fdg'' \<mapsto> [Fin 100, Fin 100]]\<rparr>"

text \<open>
  Collaborators for a quiet scene: no wind field matches, the geophysical Doppler shift is
  100 Hz everywhere, every subswath covers the same nine cells of the common grid and
  shows there the first pixel of its \<open>raw_fdg\<close>, every export succeeds and every
  reprojection keeps the bands.
\<close>

definition quiet_collaborators :: collaborators where
  "quiet_collaborators =
     \<lparr>anomaly = (\<lambda>sw. [Fin 0, Fin 0]),
      wind = (\<lambda>sw. False),
      wind_waves_doppler = (\<lambda>sw. [Fin 0, Fin 0]),
      geophysical_doppler_shift = (\<lambda>w sw. [Fin 100, Fin 100]),
      corrected_sigma0 = (\<lambda>sw. [Fin 1, Fin 1]),
      polarization = (\<lambda>sw. ''VV''),
      geocode = (\<lambda>sw raw. \<lparr>swathmask = nine_of (Fin 1),
                           band1 = nine_of (case raw of [] \<Rightarrow> NaN | x # rest \<Rightarrow> x)\<rparr>),
      export_ok = (\<lambda>sw. True),
      reproject = (\<lambda>sw. sw)\<rparr>"

text \<open>An acquisition whose first subswath cannot deliver its incidence angle.\<close>

definition first_unreadable :: "nat \<Rightarrow> subswath" where
  "first_unreadable i = (if i = 0 then unreadable_swath else raw_swath)"

text \<open>Four derived subswaths behind one that holds only a land-validity band without land.\<close>

definition no_dc_std_in_0 :: "nat \<Rightarrow> subswath" where
  "no_dc_std_in_0 i = (if i = 0 then land_only [Fin 0, Fin 0] else derived_swath)"

text \<open>Five derived subswaths whose \<open>raw_fdg\<close> carries the biases 0, 5, 10, 15 and 20 Hz.\<close>

definition biased_swath :: "nat \<Rightarrow> subswath" where
  "biased_swath i =
     add_band ''raw_fdg'' [Fin (100 + 5 * real i), Fin (100 + 5 * real i)] raw_swath"

section \<open>Properties\<close>

subsection \<open>Loops, errors and bands\<close>

lemma subswath_range: "[0..<n_subswaths] = [0, 1, 2, 3, 4]"
  by (simp add: n_subswaths_def upt_rec)

lemma pair_range: "[1..<n_subswaths] = [1, 2, 3, 4]"
  by (simp add: n_subswaths_def upt_rec)

lemma bind_err_Inr: "bind_err (Inr x) f = f x"
  by (simp add: bind_err_def)

lemma bind_err_Inl: "bind_err (Inl e) f = Inl e"
  by (simp add: bind_err_def)

lemma bind_err_Inr_iff: "bind_err m f = Inr y \<longleftrightarrow> (\<exists>x. m = Inr x \<and> f x = Inr y)"
  by (cases m) (simp_all add: bind_err_def)

lemma collect_Inr_nth:
  "collect idx body = Inr vs \<Longrightarrow>
     length vs = length idx \<and> (\<forall>k<length idx. body (idx ! k) = Inr (vs ! k))"
proof (induction idx arbitrary: vs)
  case Nil
  then show ?case by simp
next
  case (Cons i rest)
  from Cons.prems obtain v vs' where
    v: "body i = Inr v" "collect rest body = Inr vs'" "vs = v # vs'"
    by (auto split: sum.splits)
  from Cons.IH [OF v(2)] have ih: "length vs' = length rest"
    "\<forall>k<length rest. body (rest ! k) = Inr (vs' ! k)" by blast+
  show ?case using v ih by (auto simp: nth_Cons split: nat.splits)
qed

lemma collect_mono:
  "(\<And>i v. i \<in> set idx \<Longrightarrow> f i = Inr v \<Longrightarrow> g i = Inr v) \<Longrightarrow>
   collect idx f = Inr vs \<Longrightarrow> collect idx g = Inr vs"
proof (induction idx arbitrary: vs)
  case Nil
  then show ?case by simp
next
  case (Cons i rest)
  from Cons.prems(2) obtain v vs' where
    v: "f i = Inr v" "collect rest f = Inr vs'" "vs = v # vs'"
    by (auto split: sum.splits)
  have "g i = Inr v" using Cons.prems(1) v(1) by simp
  moreover have "collect rest g = Inr vs'" using Cons.IH Cons.prems(1) v(2) by simp
  ultimately show ?case using v(3) by simp
qed

lemma for_range_Cons_Inr:
  "for_range (j # rest) body s = Inr s' \<longleftrightarrow>
     (\<exists>s1. body j s = Inr s1 \<and> for_range rest body s1 = Inr s')"
  by (cases "body j s") simp_all

text \<open>
  A loop whose turn \<open>i\<close> replaces object \<open>i\<close> by a function of that object alone treats
  every object separately.
\<close>

lemma for_range_pointwise:
  assumes "distinct idx"
    and "\<And>i sd. body i sd = bind_err (f i (sd i)) (\<lambda>sw. Inr (sd(i := sw)))"
    and "for_range idx body sd = Inr sd'"
  shows "(\<forall>i\<in>set idx. f i (sd i) = Inr (sd' i)) \<and> (\<forall>i. i \<notin> set idx \<longrightarrow> sd' i = sd i)"
  using assms(1,3)
proof (induction idx arbitrary: sd)
  case Nil
  then show ?case by simp
next
  case (Cons j rest)
  from Cons.prems(2) obtain s1 where s1: "body j sd = Inr s1" "for_range rest body s1 = Inr sd'"
    unfolding for_range_Cons_Inr by blast
  from s1(1) obtain sw where sw: "f j (sd j) = Inr sw" "s1 = sd(j := sw)"
    unfolding assms(2) bind_err_Inr_iff by blast
  from Cons.prems(1) have d: "distinct rest" "j \<notin> set rest" by simp_all
  from Cons.IH [OF d(1) s1(2)]
  have ih: "\<forall>i\<in>set rest. f i (s1 i) = Inr (sd' i)"
    "\<forall>i. i \<notin> set rest \<longrightarrow> sd' i = s1 i" by blast+
  have "sd' j = sw" using ih(2) d(2) sw(2) by simp
  moreover have "\<forall>i\<in>set rest. f i (sd i) = Inr (sd' i)"
    using ih(1) d(2) sw(2) by (metis fun_upd_other)
  moreover have "\<forall>i. i \<notin> set (j # rest) \<longrightarrow> sd' i = sd i"
    using ih(2) sw(2) by simp
  ultimately show ?case using sw(1) by simp
qed

lemma get_band_add_band:
  "get_band (add_band name array sw) name' =
     (if name' = name then Inr array else get_band sw name')"
  by (simp add: get_band_def add_band_def)

lemma wkv_fdg: "wkv_short_name
    ''surface_backwards_doppler_frequency_shift_of_radar_wave_due_to_surface_velocity'' = ''fdg''"
  by (simp add: wkv_short_name_def)

lemma wkv_Ur: "wkv_short_name ''surface_radial_doppler_sea_water_velocity'' = ''Ur''"
  by (simp add: wkv_short_name_def)

lemma pixelwise_Inr_iff:
  "pixelwise f a b = Inr r \<longleftrightarrow> length a = length b \<and> r = map2 f a b"
  by (auto simp: pixelwise_def)

lemma mask_invalid_Inr_iff:
  "mask_invalid v valid = Inr r \<longleftrightarrow>
     length valid = length v \<and> r = map2 (\<lambda>v f. if f \<noteq> Fin 2 then NaN else v) v valid"
  by (auto simp: mask_invalid_def)

lemma take_pixels_Inr_iff:
  "take_pixels a idx = Inr r \<longleftrightarrow> (\<forall>j\<in>set idx. j < length a) \<and> r = map (\<lambda>j. a ! j) idx"
  by (auto simp: take_pixels_def list_all_iff)

lemma fsub_zero [simp]: "fsub x (Fin 0) = x"
  by (cases x) (simp_all add: fsub_def)

lemma fsub_NaN [simp]: "fsub x NaN = NaN"
  by (cases x) (simp_all add: fsub_def)

lemma fsub_self_finite: "isfinite x \<Longrightarrow> fsub x x = Fin 0"
  by (cases x) (simp_all add: fsub_def)

subsection \<open>Longitude correction\<close>

lemma arccos_cos_range: "0 \<le> arccos (cos x) \<and> arccos (cos x) \<le> pi"
  by (simp add: arccos_lbound arccos_ubound)







text \<open>
  Where the sine is not zero the correction is the product with the sign, as the
  specification writes it. Where it is zero, \<open>copysign\<close> keeps the magnitude.
\<close>

lemma normalize_lon_sign_form:
  "sin (llo * pi / 180) \<noteq> 0 \<Longrightarrow>
   normalize_lon llo = sgn (sin (llo * pi / 180)) * arccos (cos (llo * pi / 180)) * 180 / pi"
  using arccos_cos_range [of "llo * pi / 180"]
  by (auto simp: normalize_lon_def copysign_def sgn_if)

lemma normalize_lon_180: "normalize_lon 180 = 180"
  by (simp add: normalize_lon_def copysign_def)

subsection \<open>The wavenumber\<close>

text \<open>
  Claim C4, as the source has it. The wavenumber is the carrier frequency divided by the
  speed of light, times \<open>2 pi\<close>: that is \<open>2 pi\<close> over the wavelength \<open>c / f\<close>, a value
  between 71 and 143 radians per metre.
\<close>

theorem wavenumber_value:
  "wavenumber = 2 * pi / (299792458 / 5331004416) \<and> 71 < wavenumber \<and> wavenumber < 143"
proof -
  have "2 \<le> pi" by (rule pi_ge_two)
  moreover have "pi < 4" by (rule pi_less_4)
  ultimately show ?thesis by (simp add: wavenumber_def field_simps)
qed

text \<open>It is not the speed of light divided by the carrier frequency, times \<open>2 pi\<close>.\<close>

theorem wavenumber_not_c_over_f:
  "wavenumber \<noteq> 299792458 / 5331004416 * 2 * pi"
proof -
  have "0 < pi" by simp
  then show ?thesis by (simp add: wavenumber_def field_simps)
qed

subsection \<open>Readings of the example subswaths\<close>

lemma get_band_derived:
  "get_band derived_swath ''raw_fdg'' = Inr [Fin 100, Fin 100]"
  "get_band derived_swath ''incidence_angle'' = Inr [Fin 30, Fin 30]"
  "get_band derived_swath ''valid_doppler'' = Inr [Fin 2, Fin 0]"
  "get_band derived_swath ''valid_land_doppler'' = Inr [Fin 1, Fin 0]"
  "get_band derived_swath ''dc_std'' = Inr [Fin 1, Fin 1]"
  "bands derived_swath ''fww'' = None"
  by (simp_all add: derived_swath_def raw_swath_def get_band_def add_band_def)

lemma get_band_land_only: "get_band (land_only vl) ''valid_land_doppler'' = Inr vl"
  by (simp add: get_band_def land_only_def)

subsection \<open>The reference subswath\<close>




text \<open>The second counting loop counts the pixels whose land-validity flag is 1.\<close>

lemma land_pixels_second_counts:
  "get_band sw ''valid_land_doppler'' = Inr vl \<Longrightarrow>
   land_pixels_second sw = Inr (length (filter (\<lambda>x. x = Fin 1) vl))"
  by (simp add: land_pixels_second_def bind_err_def count_true_def filter_map comp_def)




lemma all_water_falls_back_to_middle:
  assumes "land_bias_second (\<lambda>i. land_only [Fin 0, Fin 2]) = Inr (i_ref, dc_offset)"
  shows "i_ref = 2"
proof -
  have c: "collect [0..<n_subswaths] (\<lambda>i. land_pixels_second (land_only [Fin 0, Fin 2]))
             = Inr [0, 0, 0, 0, 0]"
    by (simp add: subswath_range land_pixels_second_counts [OF get_band_land_only])
  show ?thesis
    using assms unfolding land_bias_second_def c
    by (auto simp: bind_err_Inr_iff Let_def choose_i_ref_def n_subswaths_def)
qed

subsection \<open>The two land bias blocks\<close>

lemma land_pixels_first_second:
  "land_pixels_first sw = Inr n \<Longrightarrow> land_pixels_second sw = Inr n"
  unfolding land_pixels_first_def land_pixels_second_def
  by (auto simp: bind_err_Inr_iff Let_def)

lemma dc_offset_first_second: "dc_offset_first sw = dc_offset_second sw"
  unfolding dc_offset_first_def dc_offset_second_def retained_pixels_def
  by (auto simp: bind_err_def Let_def split: sum.splits)

lemma second_block_repeats_first:
  assumes "land_bias_first swath_data = Inr r"
  shows "land_bias_second swath_data = Inr r"
proof -
  from assms obtain counts where
    c: "collect [0..<n_subswaths] (\<lambda>i. land_pixels_first (swath_data i)) = Inr counts"
    and d: "bind_err (dc_offset_first (swath_data (choose_i_ref counts)))
              (\<lambda>dc_offset. Inr (choose_i_ref counts, dc_offset)) = Inr r"
    unfolding land_bias_first_def by (auto simp: bind_err_Inr_iff Let_def)
  have "collect [0..<n_subswaths] (\<lambda>i. land_pixels_second (swath_data i)) = Inr counts"
    using c by (rule collect_mono [rotated]) (rule land_pixels_first_second)
  then show ?thesis
    using d unfolding land_bias_second_def
    by (simp add: bind_err_def Let_def dc_offset_first_second)
qed

text \<open>Dropping the first block changes no result of a run that returns.\<close>

lemma first_block_is_dead:
  assumes "get_or_create c swath_data = Inr out"
  shows "get_or_create_once c swath_data = Inr out"
proof -
  from assms obtain st1 where
    load: "for_range [0..<n_subswaths] (derive_step c) (swath_data, False) = Inr st1"
    and rest: "bind_err (land_bias_first (fst st1)) (\<lambda>first_bias.
       bind_err (land_bias_second (fst st1)) (\<lambda>second_bias.
       let i_ref = fst second_bias; dc_offset = snd second_bias
       in bind_err (dc_jumps c (fst st1) i_ref) (\<lambda>fdg_jumps.
          bind_err (for_range [0..<n_subswaths] (correct_step fdg_jumps dc_offset) (fst st1))
            (\<lambda>swath_data2.
          bind_err (for_range [0..<n_subswaths] (export_step c) (swath_data2, snd st1))
            (\<lambda>st3. Inr (fst st3, \<not> snd st3)))))) = Inr out"
    unfolding get_or_create_def bind_err_Inr_iff [of "for_range _ _ _"] by blast
  from rest obtain first_bias where
    "bind_err (land_bias_second (fst st1)) (\<lambda>second_bias.
       let i_ref = fst second_bias; dc_offset = snd second_bias
       in bind_err (dc_jumps c (fst st1) i_ref) (\<lambda>fdg_jumps.
          bind_err (for_range [0..<n_subswaths] (correct_step fdg_jumps dc_offset) (fst st1))
            (\<lambda>swath_data2.
          bind_err (for_range [0..<n_subswaths] (export_step c) (swath_data2, snd st1))
            (\<lambda>st3. Inr (fst st3, \<not> snd st3))))) = Inr out"
    unfolding bind_err_Inr_iff [of "land_bias_first _"] by blast
  then show ?thesis unfolding get_or_create_once_def load bind_err_Inr .
qed

text \<open>
  Claim C10. Whenever the first block yields a reference index and an offset, the second
  block yields the same pair; and a run that returns would return the same without the
  first block, whose results nothing reads.
\<close>

theorem second_bias_block_repeats_first:
  "(land_bias_first swath_data = Inr r \<longrightarrow> land_bias_second swath_data = Inr r)
   \<and> (get_or_create c swath_data = Inr out \<longrightarrow> get_or_create_once c swath_data = Inr out)"
  using second_block_repeats_first first_block_is_dead by blast

lemma std_threshold_one: "std_threshold [Fin 1] = Fin 1"
  by (simp add: std_threshold_def nanmedian_def nanstd_def fsort_def fsum_def fsub_def)

lemma land_pixels_first_derived: "land_pixels_first derived_swath = Inr 1"
  by (simp add: land_pixels_first_def get_band_derived bind_err_def select_def
        std_threshold_one argwhere_def take_pixels_def count_true_def)

lemma dc_offset_first_derived: "dc_offset_first derived_swath = Inr (Fin 100)"
  by (simp add: dc_offset_first_def get_band_derived bind_err_def select_def
        std_threshold_one nanmean_def fsum_def)

lemma land_bias_first_derived: "land_bias_first (\<lambda>i. derived_swath) = Inr (0, Fin 100)"
  by (simp add: land_bias_first_def subswath_range land_pixels_first_derived bind_err_def
        choose_i_ref_def dc_offset_first_derived)

theorem second_bias_block_repeats_first_witness:
  "land_bias_first (\<lambda>i. derived_swath) = Inr (0, Fin 100)
   \<and> land_bias_second (\<lambda>i. derived_swath) = Inr (0, Fin 100)"
  using second_bias_block_repeats_first [of "\<lambda>i. derived_swath" "(0, Fin 100)"]
    land_bias_first_derived
  by simp

text \<open>
  The first block is not free of effects: its counting loop reads \<open>dc_std\<close> and
  \<open>raw_fdg\<close> of every subswath, so it can raise where the second block alone would
  return.
\<close>

lemma land_pixels_first_land_only:
  "land_pixels_first (land_only vl) = Inl (BandError ''dc_std'')"
  by (simp add: land_pixels_first_def get_band_def land_only_def bind_err_def)

lemma dc_offset_second_derived: "dc_offset_second derived_swath = Inr (Fin 100)"
  using dc_offset_first_derived by (simp add: dc_offset_first_second)

lemma first_block_can_raise_alone:
  "land_bias_first no_dc_std_in_0 = Inl (BandError ''dc_std'')
     \<and> land_bias_second no_dc_std_in_0 = Inr (1, Fin 100)"
proof -
  have z: "land_pixels_second (no_dc_std_in_0 0) = Inr 0"
    using land_pixels_second_counts [OF get_band_land_only, of "[Fin 0, Fin 0]"]
    by (simp add: no_dc_std_in_0_def)
  have o: "0 < i \<Longrightarrow> land_pixels_second (no_dc_std_in_0 i) = Inr 1" for i
    using land_pixels_second_counts [OF get_band_derived(4)]
    by (simp add: no_dc_std_in_0_def)
  have c: "collect [0..<n_subswaths] (\<lambda>i. land_pixels_second (no_dc_std_in_0 i))
             = Inr [0, 1, 1, 1, 1]"
    unfolding subswath_range by (simp add: z o)
  have r: "choose_i_ref [0, 1, 1, 1, 1] = 1" by (simp add: choose_i_ref_def)
  have d: "dc_offset_second (no_dc_std_in_0 1) = Inr (Fin 100)"
    by (simp add: no_dc_std_in_0_def dc_offset_second_derived)
  have "land_bias_second no_dc_std_in_0 = Inr (1, Fin 100)"
    unfolding land_bias_second_def c bind_err_def sum.case Let_def r d by simp
  moreover have "land_bias_first no_dc_std_in_0 = Inl (BandError ''dc_std'')"
  proof -
    have "land_pixels_first (no_dc_std_in_0 0) = Inl (BandError ''dc_std'')"
      by (simp add: no_dc_std_in_0_def land_pixels_first_land_only)
    then have "collect [0..<n_subswaths] (\<lambda>i. land_pixels_first (no_dc_std_in_0 i))
                 = Inl (BandError ''dc_std'')"
      unfolding subswath_range by simp
    then show ?thesis unfolding land_bias_first_def by (simp add: bind_err_def)
  qed
  ultimately show ?thesis by simp
qed

subsection \<open>Histogram, window and convolution\<close>

lemma length_hist_counts: "length (hist_counts a bins) = bins"
  by (simp add: hist_counts_def Let_def)

lemma length_hist_edges: "length (hist_edges a bins) = bins + 1"
  by (simp add: hist_edges_def Let_def)

lemma length_bin_centers: "length (bin_centers x) = length x - 1"
  by (simp add: bin_centers_def)

lemma count_nonzero_le: "count_nonzero y \<le> length y"
  by (simp add: count_nonzero_def)

lemma length_convolve_full: "length (convolve_full a v) = length a + length v - 1"
  by (simp add: convolve_full_def)

lemma same_length_arith:
  "0 < (la::nat) \<Longrightarrow> 0 < lv \<Longrightarrow>
   min (la + lv - 1 - (min la lv - 1 - min la lv div 2)) (max la lv) = max la lv"
  by arith

lemma convolve_same_length:
  assumes "convolve_same a v = Inr r"
  shows "length r = max (length a) (length v) \<and> r \<noteq> []"
proof -
  from assms have ne: "a \<noteq> []" "v \<noteq> []"
    and r: "r = take (max (length a) (length v))
                  (drop (min (length a) (length v) - 1 - min (length a) (length v) div 2)
                     (convolve_full a v))"
    by (auto simp: convolve_same_def Let_def split: if_splits)
  have "0 < length a" "0 < length v" using ne by simp_all
  then have "length r = max (length a) (length v)"
    unfolding r length_take length_drop length_convolve_full by (rule same_length_arith)
  moreover have "0 < max (length a) (length v)" using ne by (simp add: max_def)
  ultimately show ?thesis by auto
qed

lemma count_bins_sum:
  "\<forall>k\<in>set idx. k < n \<Longrightarrow>
   sum_list (map (\<lambda>b. length (filter (\<lambda>k. k = b) idx)) [0..<n]) = length idx"
proof (induction idx)
  case Nil
  then show ?case by simp
next
  case (Cons k idx)
  have one: "sum_list (map (\<lambda>b. if k = b then 1 else 0) [0..<n]) = (1::nat)"
    using Cons.prems by (simp add: interv_sum_list_conv_sum_set_nat)
  have "sum_list (map (\<lambda>b. length (filter (\<lambda>k. k = b) (k # idx))) [0..<n])
      = sum_list (map (\<lambda>b. (if k = b then 1 else 0) + length (filter (\<lambda>k. k = b) idx)) [0..<n])"
    by (intro arg_cong [where f = sum_list] map_cong refl) simp
  also have "\<dots> = sum_list (map (\<lambda>b. if k = b then 1 else 0) [0..<n])
                  + sum_list (map (\<lambda>b. length (filter (\<lambda>k. k = b) idx)) [0..<n])"
    by (simp add: sum_list_addf)
  also have "\<dots> = 1 + length idx" using one Cons by simp
  finally show ?case by simp
qed

lemma hist_counts_sum:
  assumes "0 < bins"
  shows "sum_list (hist_counts a bins) = length a"
proof -
  define idx where "idx = map (\<lambda>v. min (bins - 1)
      (nat \<lfloor>(v - fst (hist_range a)) * real bins / (snd (hist_range a) - fst (hist_range a))\<rfloor>)) a"
  have "\<forall>k\<in>set idx. k < bins" using assms by (auto simp: idx_def)
  then have "sum_list (map (\<lambda>b. length (filter (\<lambda>k. k = b) idx)) [0..<bins]) = length idx"
    by (rule count_bins_sum)
  moreover have "hist_counts a bins = map (\<lambda>b. length (filter (\<lambda>k. k = b) idx)) [0..<bins]"
    by (simp only: hist_counts_def Let_def idx_def)
  ultimately show ?thesis by (simp add: idx_def)
qed

text \<open>The bin count: three or more from nine samples on, at most two below.\<close>

lemma n_bins_ge_3:
  assumes "9 \<le> length a"
  shows "3 \<le> n_bins a"
proof -
  have "3 \<le> sqrt (real (length a))" using assms by (intro real_le_rsqrt) simp
  then have "3 \<le> \<lfloor>sqrt (real (length a))\<rfloor>" by (simp add: le_floor_iff)
  then show ?thesis unfolding n_bins_def by linarith
qed

lemma n_bins_small:
  assumes "length a < 9"
  shows "n_bins a \<le> 2"
proof -
  have "sqrt (real (length a)) < 3" using assms by (intro real_less_lsqrt) simp_all
  then have "\<lfloor>sqrt (real (length a))\<rfloor> < 3" by (simp add: floor_less_iff)
  then show ?thesis unfolding n_bins_def by linarith
qed

lemma n_bins_pos_iff: "0 < n_bins a \<longleftrightarrow> a \<noteq> []"
proof
  assume "0 < n_bins a"
  then show "a \<noteq> []" by (auto simp: n_bins_def)
next
  assume "a \<noteq> []"
  then have "1 \<le> real (length a)" by (cases a) simp_all
  then have "1 \<le> sqrt (real (length a))" by simp
  then have "1 \<le> \<lfloor>sqrt (real (length a))\<rfloor>" by (simp add: le_floor_iff)
  then show "0 < n_bins a" unfolding n_bins_def by linarith
qed

lemma floor_sqrt_eq:
  assumes "real k ^ 2 \<le> x" and "x < (real k + 1) ^ 2"
  shows "nat \<lfloor>sqrt x\<rfloor> = k"
proof -
  have "real k \<le> sqrt x" using assms(1) by (intro real_le_rsqrt) simp
  moreover have "sqrt x < real k + 1" using assms(2) by (intro real_less_lsqrt) simp_all
  ultimately have "\<lfloor>sqrt x\<rfloor> = int k" by (intro floor_unique) simp_all
  then show ?thesis by simp
qed

text \<open>The window is odd, and with three bins or more it is no longer than the histogram.\<close>

lemma floor_root3_cube:
  fixes k :: nat
  shows "0 \<le> \<lfloor>root 3 (real k)\<rfloor> \<and> (nat \<lfloor>root 3 (real k)\<rfloor>) ^ 3 \<le> k"
proof -
  let ?m = "nat \<lfloor>root 3 (real k)\<rfloor>"
  have nn: "0 \<le> root 3 (real k)" by simp
  then have f: "0 \<le> \<lfloor>root 3 (real k)\<rfloor>" by simp
  have "real ?m \<le> root 3 (real k)" using f by (simp add: of_nat_nat)
  then have "real ?m ^ 3 \<le> root 3 (real k) ^ 3" by (intro power_mono) simp_all
  also have "root 3 (real k) ^ 3 = real k" by (simp add: real_root_pow_pos2)
  finally have "real (?m ^ 3) \<le> real k" by simp
  then have "?m ^ 3 \<le> k" by (rule of_nat_le_iff [THEN iffD1])
  then show ?thesis using f by blast
qed

lemma window_length_odd: "window_length y = 2 * nat \<lfloor>root 3 (real (count_nonzero y))\<rfloor> + 1"
proof -
  have "0 \<le> \<lfloor>root 3 (real (count_nonzero y))\<rfloor>" using floor_root3_cube by blast
  then show ?thesis by (simp add: window_length_def nat_add_distrib nat_mult_distrib)
qed

lemma window_length_le:
  assumes "3 \<le> length y"
  shows "window_length y \<le> length y"
proof -
  let ?m = "nat \<lfloor>root 3 (real (count_nonzero y))\<rfloor>"
  have cube: "?m ^ 3 \<le> count_nonzero y" using floor_root3_cube by blast
  have "2 * ?m + 1 \<le> length y"
  proof (cases "?m \<le> 1")
    case True
    then show ?thesis using assms by simp
  next
    case False
    define m where "m = ?m"
    from False have m2: "2 \<le> m" by (simp add: m_def)
    then have "2 * 2 * m \<le> m * m * m" by (intro mult_le_mono) simp_all
    then have "2 * m + 1 \<le> m ^ 3" using m2 unfolding power3_eq_cube by linarith
    then have "2 * ?m + 1 \<le> ?m ^ 3" by (simp only: m_def)
    also have "\<dots> \<le> count_nonzero y" by (rule cube)
    also have "\<dots> \<le> length y" by (rule count_nonzero_le)
    finally show ?thesis .
  qed
  then show ?thesis by (simp add: window_length_odd)
qed

lemma sum_list_if_filter:
  "sum_list (map (\<lambda>j. if P j then f j * c else 0) xs)
     = sum_list (map f (filter P xs)) * (c::real)"
  by (induction xs) (simp_all add: algebra_simps)

text \<open>
  Convolving with \<open>N\<close> weights \<open>1 / N\<close> in mode \<open>same\<close> is the centred moving average,
  for an odd \<open>N\<close> that is not longer than the list.
\<close>

lemma convolve_same_moving_average:
  assumes "N = 2 * h + 1" and "N \<le> length y"
  shows "convolve_same y (replicate N (1 / real N)) = Inr (moving_average N y)"
proof -
  let ?w = "replicate N (1 / real N)"
  let ?M = "length y"
  have ne: "y \<noteq> []" "?w \<noteq> []" using assms by auto
  have mn: "min ?M N = N" "max ?M N = ?M" using assms(2) by simp_all
  have off: "N - Suc h = h" "N div 2 = h" using assms(1) by simp_all
  have same: "convolve_same y ?w = Inr (take ?M (drop h (convolve_full y ?w)))"
    using ne by (simp add: convolve_same_def Let_def mn off)
  have "take ?M (drop h (convolve_full y ?w)) = moving_average N y"
  proof (rule nth_equalityI)
    show "length (take ?M (drop h (convolve_full y ?w))) = length (moving_average N y)"
      using assms by (simp add: length_convolve_full moving_average_def)
  next
    fix i assume "i < length (take ?M (drop h (convolve_full y ?w)))"
    then have i: "i < ?M" by simp
    have ih: "h + i < ?M + N - 1" using i assms by simp
    have "take ?M (drop h (convolve_full y ?w)) ! i = convolve_full y ?w ! (h + i)"
      using i ih by (simp add: length_convolve_full)
    also have "\<dots> = sum_list (map (\<lambda>j. if j \<le> h + i \<and> h + i - j < N
                                      then y ! j * ?w ! (h + i - j) else 0) [0..<?M])"
    proof -
      have k: "h + i < length [0..<?M + length ?w - 1]" using ih by simp
      have "[0..<?M + length ?w - 1] ! (h + i) = h + i" using ih by simp
      then show ?thesis unfolding convolve_full_def nth_map [OF k] by (simp cong: if_cong)
    qed
    also have "\<dots> = sum_list (map (\<lambda>j. if i \<le> j + h \<and> j \<le> i + h
                                      then y ! j * (1 / real N) else 0) [0..<?M])"
    proof -
      have "(if j \<le> h + i \<and> h + i - j < N then y ! j * ?w ! (h + i - j) else 0)
          = (if i \<le> j + h \<and> j \<le> i + h then y ! j * (1 / real N) else 0)" for j
      proof -
        have c: "(j \<le> h + i \<and> h + i - j < N) = (i \<le> j + h \<and> j \<le> i + h)"
          unfolding assms(1) by auto
        show ?thesis unfolding c [symmetric] by (simp cong: if_cong)
      qed
      then show ?thesis by simp
    qed
    also have "\<dots> = sum_list (map (\<lambda>j. y ! j)
                        (filter (\<lambda>j. i \<le> j + h \<and> j \<le> i + h) [0..<?M])) * (1 / real N)"
      by (rule sum_list_if_filter)
    also have "\<dots> = moving_average N y ! i"
      using i by (simp add: moving_average_def off)
    finally show "take ?M (drop h (convolve_full y ?w)) ! i = moving_average N y ! i" .
  qed
  with same show ?thesis by simp
qed

lemma floor_root3_small: "1 \<le> k \<Longrightarrow> k \<le> 2 \<Longrightarrow> nat \<lfloor>root 3 (real k)\<rfloor> = 1"
proof -
  assume k: "1 \<le> k" "k \<le> 2"
  have "1 \<le> root 3 (real k)" using k by simp
  moreover have "root 3 (real k) < root 3 8" using k by (intro real_root_less_mono) simp_all
  moreover have "root 3 (8::real) = 2" using real_root_power_cancel [of 3 "2::real"] by simp
  ultimately have "\<lfloor>root 3 (real k)\<rfloor> = 1" by (intro floor_unique) simp_all
  then show ?thesis by simp
qed

lemma length_moving_average: "length (moving_average N y) = length y"
  by (simp add: moving_average_def)

lemma argwhere_eq_filter:
  "argwhere (map P ys) = filter (\<lambda>j. P (ys ! j)) [0..<length ys]"
  unfolding argwhere_def by (auto intro: filter_cong)

lemma upt_2: "[0..<2] = [0, 1]"
  by (simp add: upt_rec)

lemma upt_3: "[0..<3] = [0, 1, 2]"
  by (simp add: upt_rec)

lemma upt_4: "[0..<4] = [0, 1, 2, 3]"
  by (simp add: upt_rec)

subsection \<open>The jump estimate\<close>

text \<open>
  From nine finite differences on, the source's estimate is the one the specification
  describes, with the bin count rounded down.
\<close>

lemma jump_estimate_by_steps:
  assumes "9 \<le> length (finite_values diff)"
  shows "jump_estimate diff = Inr (mode_of_histogram diff)"
proof -
  let ?a = "finite_values diff"
  let ?bins = "n_bins ?a"
  let ?y = "hist_counts ?a ?bins"
  let ?x = "hist_edges ?a ?bins"
  let ?N = "window_length ?y"
  let ?sm = "moving_average ?N (map real ?y)"
  have b3: "3 \<le> ?bins" using assms by (rule n_bins_ge_3)
  have hist: "histogram ?a ?bins = Inr (?y, ?x)" using b3 by (simp add: histogram_def)
  have ly: "length ?y = ?bins" by (rule length_hist_counts)
  have Nle: "?N \<le> length (map real ?y)"
    using window_length_le [of ?y] b3 ly by simp
  have conv: "convolve_same (map real ?y) (replicate ?N (1 / real ?N)) = Inr ?sm"
    using window_length_odd Nle by (rule convolve_same_moving_average)
  have lsm: "length ?sm = ?bins" by (simp add: length_moving_average ly)
  have lc: "length (bin_centers ?x) = ?bins"
    by (simp add: length_bin_centers length_hist_edges)
  let ?idx = "argwhere (map (\<lambda>s. s = Max (set ?sm)) ?sm)"
  have idx: "?idx = filter (\<lambda>b. ?sm ! b = Max (set ?sm)) [0..<?bins]"
    by (simp add: argwhere_eq_filter lsm)
  have tp: "take_pixels (bin_centers ?x) ?idx = Inr (map (\<lambda>b. bin_centers ?x ! b) ?idx)"
    unfolding take_pixels_Inr_iff idx using lc by simp
  have "jump_estimate diff = Inr (median (map (\<lambda>b. bin_centers ?x ! b) ?idx))"
    unfolding jump_estimate_def by (simp add: Let_def hist bind_err_def conv tp)
  also have "median (map (\<lambda>b. bin_centers ?x ! b) ?idx) = mode_of_histogram diff"
    by (simp only: idx)
       (simp add: mode_of_histogram_def Let_def window_length_odd count_nonzero_def n_bins_def)
  finally show ?thesis .
qed

text \<open>
  With fewer than nine finite differences there are at most two bins, the window of
  three weights is longer than the histogram, \<open>np.convolve\<close> returns three smoothed
  counts, and the position of the largest lies past the last bin centre: the indexing
  raises. With no finite difference at all \<open>np.histogram\<close> is asked for zero bins.
\<close>

lemma convolve_one_bin:
  "convolve_same [c] (replicate 3 w) = Inr [c * w, c * w, c * w]"
  by (simp add: convolve_same_def convolve_full_def upt_3 numeral_3_eq_3)

lemma convolve_two_bins:
  "convolve_same [c, d] (replicate 3 w) = Inr [c * w, c * w + d * w, c * w + d * w]"
  by (simp add: convolve_same_def convolve_full_def upt_2 upt_4 numeral_3_eq_3 nth_Cons')

lemma jump_estimate_too_few:
  assumes "length (finite_values diff) < 9"
  shows "jump_estimate diff = Inl (if finite_values diff = [] then ValueError else IndexError)"
proof (cases "finite_values diff = []")
  case True
  then show ?thesis by (simp add: jump_estimate_def n_bins_def histogram_def bind_err_def)
next
  case False
  let ?a = "finite_values diff"
  let ?bins = "n_bins ?a"
  let ?y = "hist_counts ?a ?bins"
  let ?x = "hist_edges ?a ?bins"
  have pos: "0 < ?bins" using False by (simp add: n_bins_pos_iff)
  have le2: "?bins \<le> 2" using assms by (rule n_bins_small)
  have hist: "histogram ?a ?bins = Inr (?y, ?x)" using pos by (simp add: histogram_def)
  have total: "sum_list ?y = length ?a" using pos by (rule hist_counts_sum)
  have npos: "0 < length ?a" using False by simp
  have ly: "length ?y = ?bins" by (rule length_hist_counts)
  have lc: "length (bin_centers ?x) = ?bins"
    by (simp add: length_bin_centers length_hist_edges)
  have nz: "1 \<le> count_nonzero ?y"
  proof (rule ccontr)
    assume "\<not> 1 \<le> count_nonzero ?y"
    then have "count_nonzero ?y = 0" by simp
    then have "\<forall>c\<in>set ?y. c = 0" by (auto simp: count_nonzero_def filter_empty_conv)
    then have "sum_list ?y = 0" by simp
    with total npos show False by simp
  qed
  have "count_nonzero ?y \<le> 2" using count_nonzero_le [of ?y] ly le2 by simp
  then have N: "window_length ?y = 3"
    using nz by (simp add: window_length_odd floor_root3_small)
  from pos le2 have "?bins = 1 \<or> ?bins = 2" by linarith
  then have "\<exists>y_sm k. convolve_same (map real ?y) (replicate 3 (1 / 3)) = Inr y_sm
              \<and> k < length y_sm \<and> y_sm ! k = Max (set y_sm) \<and> ?bins \<le> k"
  proof
    assume "?bins = 1"
    then obtain c where c: "?y = [c]" using ly by (cases ?y) auto
    have "convolve_same (map real ?y) (replicate 3 (1 / 3)) = Inr [c / 3, c / 3, c / 3]"
      unfolding c using convolve_one_bin [of "real c" "1 / 3"] by simp
    moreover have "[real c / 3, c / 3, c / 3] ! 1 = Max (set [real c / 3, c / 3, c / 3])" by simp
    ultimately show ?thesis using \<open>?bins = 1\<close> by (intro exI [where x = 1] exI conjI) auto
  next
    assume "?bins = 2"
    then obtain c d where c: "?y = [c, d]" using ly
      by (cases ?y; cases "tl ?y") auto
    have "convolve_same (map real ?y) (replicate 3 (1 / 3))
            = Inr [c / 3, c / 3 + d / 3, c / 3 + d / 3]"
      unfolding c using convolve_two_bins [of "real c" "real d" "1 / 3"] by simp
    moreover have "[real c / 3, c / 3 + d / 3, c / 3 + d / 3] ! 2
                     = Max (set [real c / 3, c / 3 + d / 3, c / 3 + d / 3])" by (simp add: max_def)
    ultimately show ?thesis using \<open>?bins = 2\<close> by (intro exI [where x = 2] exI conjI) auto
  qed
  then obtain y_sm k where sm: "convolve_same (map real ?y) (replicate 3 (1 / 3)) = Inr y_sm"
    and k: "k < length y_sm" "y_sm ! k = Max (set y_sm)" "?bins \<le> k" by blast
  have "k \<in> set (argwhere (map (\<lambda>s. s = Max (set y_sm)) y_sm))"
    using k by (simp add: argwhere_def)
  then have "take_pixels (bin_centers ?x) (argwhere (map (\<lambda>s. s = Max (set y_sm)) y_sm))
               = Inl IndexError"
    using k(3) lc unfolding take_pixels_def list_all_iff by (auto simp: not_less)
  then show ?thesis
    using False unfolding jump_estimate_def by (simp add: Let_def hist bind_err_def N sm)
qed

text \<open>An estimate is a number.\<close>

lemma median_finite:
  assumes "xs \<noteq> []"
  shows "isfinite (median xs)"
proof -
  have "sort xs \<noteq> []" using assms by (metis length_sort length_0_conv)
  then show ?thesis by (simp add: median_def Let_def)
qed

lemma argwhere_max_nonempty:
  assumes "ys \<noteq> []"
  shows "argwhere (map (\<lambda>s. s = Max (set ys)) ys) \<noteq> []"
proof -
  have "Max (set ys) \<in> set ys" using assms by (intro Max_in) simp_all
  then obtain k where k: "k < length ys" "ys ! k = Max (set ys)"
    by (auto simp: in_set_conv_nth)
  then have "k \<in> set (argwhere (map (\<lambda>s. s = Max (set ys)) ys))"
    by (simp add: argwhere_def)
  then show ?thesis by auto
qed

lemma jump_estimate_finite:
  assumes "jump_estimate diff = Inr j"
  shows "isfinite j"
proof -
  from assms obtain y x y_sm at_max where
    sm: "convolve_same (map real y) (replicate (window_length y) (1 / real (window_length y)))
           = Inr y_sm"
    and tp: "take_pixels (bin_centers x) (argwhere (map (\<lambda>s. s = Max (set y_sm)) y_sm))
           = Inr at_max"
    and j: "j = median at_max"
    unfolding jump_estimate_def by (auto simp: bind_err_Inr_iff Let_def)
  have "y_sm \<noteq> []" using convolve_same_length [OF sm] by simp
  then have "argwhere (map (\<lambda>s. s = Max (set y_sm)) y_sm) \<noteq> []" by (rule argwhere_max_nonempty)
  then have "at_max \<noteq> []" using tp by (auto simp: take_pixels_Inr_iff)
  then show ?thesis unfolding j by (rule median_finite)
qed

text \<open>Nine equal differences: three bins, all of the count in the middle one.\<close>

lemma n_bins_nine: "nat \<lfloor>sqrt 9\<rfloor> = 3"
  using floor_sqrt_eq [of 3 9] by simp


lemma finite_values_nine: "finite_values (nine_of (Fin v)) = nine_of v"
  by (simp add: finite_values_def nine_of_def)

lemma hist_range_nine: "hist_range (nine_of v) = (v - 1 / 2, v + 1 / 2)"
  by (simp add: hist_range_def nine_of_def)

lemma hist_counts_nine: "hist_counts (nine_of v) 3 = [0, 9, 0]"
proof -
  have "nat \<lfloor>(3::real) / 2\<rfloor> = 1" by linarith
  then show ?thesis
    unfolding hist_counts_def hist_range_nine Let_def fst_conv snd_conv
    by (simp add: upt_3 nine_of_def)
qed

lemma hist_edges_nine:
  "hist_edges (nine_of v) 3 = [v - 1 / 2, v - 1 / 6, v + 1 / 6, v + 1 / 2]"
  unfolding hist_edges_def hist_range_nine Let_def fst_conv snd_conv
  by (simp add: upt_4)

lemma moving_average_nine: "moving_average 3 [0, 9, 0] = [3, 3, 3]"
  by (simp add: moving_average_def upt_3)

lemma mode_of_histogram_nine: "mode_of_histogram (nine_of (Fin v)) = Fin v"
proof -
  have len: "length (nine_of v) = 9" by (simp add: nine_of_def)
  have N: "nat \<lfloor>root 3 (1::real)\<rfloor> = 1" by simp
  have c: "bin_centers [v - 1 / 2, v - 1 / 6, v + 1 / 6, v + 1 / 2] = [v - 1 / 3, v, v + 1 / 3]"
    by (simp add: bin_centers_def)
  show ?thesis
    unfolding mode_of_histogram_def finite_values_nine len Let_def
    by (simp add: n_bins_nine hist_counts_nine hist_edges_nine N moving_average_nine upt_3 c
          median_def)
qed

lemma jump_estimate_nine: "jump_estimate (nine_of (Fin v)) = Inr (Fin v)"
proof -
  have "9 \<le> length (finite_values (nine_of (Fin v)))"
    unfolding finite_values_nine by (simp add: nine_of_def)
  then have "jump_estimate (nine_of (Fin v)) = Inr (mode_of_histogram (nine_of (Fin v)))"
    by (rule jump_estimate_by_steps)
  then show ?thesis by (simp only: mode_of_histogram_nine)
qed







subsection \<open>Cumulative jumps and the reference subswath\<close>

lemma cumsum_from_finite:
  "isfinite acc \<Longrightarrow> list_all isfinite xs \<Longrightarrow> list_all isfinite (cumsum_from acc xs)"
proof (induction xs arbitrary: acc)
  case Nil
  then show ?case by simp
next
  case (Cons x xs)
  from Cons.prems obtain a b where "acc = Fin a" "x = Fin b"
    by (cases acc; cases x) simp_all
  then have "isfinite (fadd acc x)" by simp
  with Cons show ?case by simp
qed

lemma length_cumsum_from: "length (cumsum_from acc xs) = length xs"
  by (induction xs arbitrary: acc) simp_all

lemma length_cumsum: "length (cumsum xs) = length xs"
  by (cases xs) (simp_all add: cumsum_def length_cumsum_from)

lemma cumsum_finite: "list_all isfinite xs \<Longrightarrow> list_all isfinite (cumsum xs)"
  by (cases xs) (simp_all add: cumsum_def cumsum_from_finite)

lemma reference_jumps_zero:
  assumes "list_all isfinite fdg_jumps" and "i_ref < length fdg_jumps"
  shows "length (reference_jumps fdg_jumps i_ref) = length fdg_jumps
       \<and> reference_jumps fdg_jumps i_ref ! i_ref = Fin 0"
proof -
  have "list_all isfinite (cumsum fdg_jumps)" using assms(1) by (rule cumsum_finite)
  then have "isfinite (cumsum fdg_jumps ! i_ref)"
    using assms(2) by (simp add: list_all_length length_cumsum)
  then show ?thesis
    using assms(2) by (simp add: reference_jumps_def Let_def length_cumsum fsub_self_finite)
qed

text \<open>
  Claim C5. Whenever the jump estimation returns, it returns five corrections, and the
  one of the reference subswath is exactly 0, whichever of the five indices that is.
\<close>

theorem reference_jump_is_zero:
  assumes "dc_jumps c swath_data i_ref = Inr fdg_jumps" and "i_ref < n_subswaths"
  shows "length fdg_jumps = n_subswaths \<and> fdg_jumps ! i_ref = Fin 0"
proof -
  from assms(1) obtain geocoded_fdg estimates where
    est: "collect [1..<n_subswaths]
            (\<lambda>i. bind_err (overlap_diff (geocoded_fdg ! i) (geocoded_fdg ! (i - 1))) jump_estimate)
          = Inr estimates"
    and out: "fdg_jumps = reference_jumps (Fin 0 # estimates) i_ref"
    unfolding dc_jumps_def by (auto simp: bind_err_Inr_iff)
  from collect_Inr_nth [OF est]
  have len: "length estimates = n_subswaths - 1"
    and each: "\<forall>k<length [1..<n_subswaths].
        bind_err (overlap_diff (geocoded_fdg ! ([1..<n_subswaths] ! k))
                    (geocoded_fdg ! ([1..<n_subswaths] ! k - 1))) jump_estimate
          = Inr (estimates ! k)"
    by simp_all
  have "\<forall>k<length estimates. isfinite (estimates ! k)"
  proof (intro allI impI)
    fix k assume "k < length estimates"
    then have "k < length [1..<n_subswaths]" using len by simp
    with each obtain d where "jump_estimate d = Inr (estimates ! k)"
      unfolding bind_err_Inr_iff by blast
    then show "isfinite (estimates ! k)" by (rule jump_estimate_finite)
  qed
  then have "list_all isfinite estimates" by (simp add: list_all_length)
  then have fin: "list_all isfinite (Fin 0 # estimates)" by simp
  have "i_ref < length (Fin 0 # estimates)" using assms(2) len by (simp add: n_subswaths_def)
  from reference_jumps_zero [OF fin this] show ?thesis
    unfolding out using len by (simp add: n_subswaths_def)
qed

lemma geocode_biased:
  "bind_err (get_band (biased_swath i) ''raw_fdg'')
     (\<lambda>raw. Inr (geocode quiet_collaborators (biased_swath i) raw))
   = Inr \<lparr>swathmask = nine_of (Fin 1), band1 = nine_of (Fin (100 + 5 * real i))\<rparr>"
  by (simp add: biased_swath_def get_band_add_band bind_err_def quiet_collaborators_def)

lemma overlap_diff_nine:
  "overlap_diff \<lparr>swathmask = nine_of (Fin 1), band1 = nine_of (Fin a)\<rparr>
                \<lparr>swathmask = nine_of (Fin 1), band1 = nine_of (Fin b)\<rparr>
   = Inr (nine_of (Fin (a - b)))"
  by (simp add: overlap_diff_def pixelwise_def bind_err_def nine_of_def argwhere_def
        take_pixels_def fsub_def)

lemma biased_estimates:
  "dc_jumps quiet_collaborators biased_swath i_ref
     = Inr (reference_jumps [Fin 0, Fin 5, Fin 5, Fin 5, Fin 5] i_ref)"
proof -
  have g: "collect [0..<n_subswaths]
             (\<lambda>i. bind_err (get_band (biased_swath i) ''raw_fdg'')
                    (\<lambda>raw. Inr (geocode quiet_collaborators (biased_swath i) raw)))
           = Inr (map (\<lambda>i. \<lparr>swathmask = nine_of (Fin 1),
                              band1 = nine_of (Fin (100 + 5 * real i))\<rparr>) [0, 1, 2, 3, 4])"
    unfolding subswath_range by (simp add: geocode_biased)
  have e: "collect [1..<n_subswaths]
             (\<lambda>i. bind_err
                (overlap_diff
                   (map (\<lambda>i. \<lparr>swathmask = nine_of (Fin 1),
                                band1 = nine_of (Fin (100 + 5 * real i))\<rparr>) [0, 1, 2, 3, 4] ! i)
                   (map (\<lambda>i. \<lparr>swathmask = nine_of (Fin 1),
                                band1 = nine_of (Fin (100 + 5 * real i))\<rparr>) [0, 1, 2, 3, 4]
                      ! (i - 1)))
                jump_estimate)
           = Inr [Fin 5, Fin 5, Fin 5, Fin 5]"
    unfolding pair_range by (simp add: overlap_diff_nine bind_err_def jump_estimate_nine)
  show ?thesis by (simp only: dc_jumps_def g bind_err_Inr e)
qed

lemma dc_jumps_biased:
  "dc_jumps quiet_collaborators biased_swath 2 = Inr [Fin (- 10), Fin (- 5), Fin 0, Fin 5, Fin 10]"
  unfolding biased_estimates by (simp add: reference_jumps_def cumsum_def fsub_def)

theorem reference_jump_is_zero_witness:
  "dc_jumps quiet_collaborators biased_swath 2 = Inr [Fin (- 10), Fin (- 5), Fin 0, Fin 5, Fin 10]
   \<and> [Fin (- 10), Fin (- 5), Fin 0, Fin 5, Fin 10] ! 2 = Fin 0"
proof -
  have "(2::nat) < n_subswaths" by (simp add: n_subswaths_def)
  from reference_jump_is_zero [OF dc_jumps_biased this] dc_jumps_biased
  show ?thesis by simp
qed

subsection \<open>Bias-corrected bands\<close>

text \<open>What the loop body has read and written when it returns.\<close>

lemma add_corrected_bands_result:
  assumes "add_corrected_bands jump dc_offset sw = Inr sw'"
  shows "\<exists>raw inci valid_doppler ur.
       get_band sw ''raw_fdg'' = Inr raw
     \<and> get_band sw ''incidence_angle'' = Inr inci
     \<and> get_band sw ''valid_doppler'' = Inr valid_doppler
     \<and> length inci = length raw \<and> length valid_doppler = length raw
     \<and> get_band sw' ''fdg'' = Inr (map (\<lambda>x. fsub (fsub x jump) dc_offset) raw)
     \<and> get_band sw' ''Ur'' = Inr ur \<and> length ur = length raw
     \<and> (\<forall>p<length raw.
          ur ! p =
            (if valid_doppler ! p \<noteq> Fin 2 then NaN
             else fdiv (fmul (Fin (- pi))
                          (fsub (fsub (fsub (raw ! p) jump) dc_offset) (fww_at sw p)))
                       (fmul (Fin wavenumber)
                          (fsin (fdiv (fmul (inci ! p) (Fin pi)) (Fin 180))))))"
proof -
  let ?fdgf = "\<lambda>x. fsub (fsub x jump) dc_offset"
  from assms obtain raw where raw: "get_band sw ''raw_fdg'' = Inr raw"
    unfolding add_corrected_bands_def by (auto simp: bind_err_Inr_iff)
  let ?fdg = "map ?fdgf raw"
  let ?sw1 = "add_band ''fdg'' ?fdg sw"
  from assms raw obtain fww inci d v valid where
    fww: "(if has_band ?sw1 ''fww'' then get_band ?sw1 ''fww'' else Inr (map (\<lambda>x. Fin 0) ?fdg))
            = Inr fww"
    and inci: "get_band ?sw1 ''incidence_angle'' = Inr inci"
    and d: "pixelwise fsub ?fdg fww = Inr d"
    and v: "pixelwise doppler_velocity d (to_theta inci) = Inr v"
    and valid: "get_band ?sw1 ''valid_doppler'' = Inr valid"
    and out: "bind_err (mask_invalid v valid)
               (\<lambda>vcurrent. Inr (add_band ''Ur'' vcurrent ?sw1)) = Inr sw'"
    unfolding add_corrected_bands_def add_band_wkv_def wkv_fdg wkv_Ur
    by (auto simp: bind_err_Inr_iff Let_def)
  from out obtain ur where ur: "mask_invalid v valid = Inr ur" and sw': "sw' = add_band ''Ur'' ur ?sw1"
    by (auto simp: bind_err_Inr_iff)
  have inci0: "get_band sw ''incidence_angle'' = Inr inci"
    using inci by (simp add: get_band_add_band)
  have valid0: "get_band sw ''valid_doppler'' = Inr valid"
    using valid by (simp add: get_band_add_band)
  have lens: "length fww = length raw" "d = map2 fsub ?fdg fww"
    "length inci = length raw" "v = map2 doppler_velocity d (to_theta inci)"
    "length valid = length raw" "ur = map2 (\<lambda>v f. if f \<noteq> Fin 2 then NaN else v) v valid"
    using d v ur by (auto simp: pixelwise_Inr_iff mask_invalid_Inr_iff to_theta_def)
  have fww_p: "\<forall>p<length raw. fww ! p = fww_at sw p"
  proof (cases "bands sw ''fww''")
    case None
    then have "\<not> has_band ?sw1 ''fww''" by (simp add: has_band_def add_band_def)
    with fww have "fww = map (\<lambda>x. Fin 0) ?fdg" by simp
    then show ?thesis using None by (simp add: fww_at_def)
  next
    case (Some f)
    then have "has_band ?sw1 ''fww''" by (simp add: has_band_def add_band_def)
    with fww have "get_band sw ''fww'' = Inr fww" by (simp add: get_band_add_band)
    then show ?thesis using Some by (simp add: fww_at_def get_band_def)
  qed
  have fdg': "get_band sw' ''fdg'' = Inr ?fdg"
    unfolding sw' by (simp add: get_band_add_band)
  have ur': "get_band sw' ''Ur'' = Inr ur"
    unfolding sw' by (simp add: get_band_add_band)
  have len_ur: "length ur = length raw" using lens by (simp add: to_theta_def)
  have px: "\<forall>p<length raw.
          ur ! p =
            (if valid ! p \<noteq> Fin 2 then NaN
             else fdiv (fmul (Fin (- pi))
                          (fsub (fsub (fsub (raw ! p) jump) dc_offset) (fww_at sw p)))
                       (fmul (Fin wavenumber)
                          (fsin (fdiv (fmul (inci ! p) (Fin pi)) (Fin 180)))))"
    using lens fww_p by (simp add: doppler_velocity_def to_theta_def)
  show ?thesis
    using raw inci0 valid0 lens(3,5) fdg' ur' len_ur px by blast
qed

lemma correct_loop_pointwise:
  assumes "for_range [0..<n_subswaths] (correct_step fdg_jumps dc_offset) swath_data
             = Inr swath_data'"
    and "i < n_subswaths"
  shows "add_corrected_bands (fdg_jumps ! i) dc_offset (swath_data i) = Inr (swath_data' i)"
  using for_range_pointwise
          [where f = "\<lambda>i. add_corrected_bands (fdg_jumps ! i) dc_offset", OF _ _ assms(1)]
        assms(2)
  by (simp add: correct_step_def)

text \<open>
  Claim C1. When the correction loop returns, every subswath \<open>i\<close> had a readable
  \<open>raw_fdg\<close>, incidence angle and validity band of one size; its new band \<open>fdg\<close> is
  \<open>raw_fdg - fdg_jumps[i] - dc_offset\<close> pixel by pixel; and its new band \<open>Ur\<close> holds NaN
  where the validity flag is not 2 and \<open>-pi (fdg - fww) / (k sin(theta))\<close> elsewhere, with
  \<open>fww\<close> the wind-wave band of the subswath, or 0 when it has none, and \<open>theta\<close> the
  incidence angle in radians.
\<close>

theorem band_corrector_bands:
  assumes "for_range [0..<n_subswaths] (correct_step fdg_jumps dc_offset) swath_data
             = Inr swath_data'"
    and "i < n_subswaths"
  shows "\<exists>raw inci valid_doppler ur.
       get_band (swath_data i) ''raw_fdg'' = Inr raw
     \<and> get_band (swath_data i) ''incidence_angle'' = Inr inci
     \<and> get_band (swath_data i) ''valid_doppler'' = Inr valid_doppler
     \<and> length inci = length raw \<and> length valid_doppler = length raw
     \<and> get_band (swath_data' i) ''fdg''
         = Inr (map (\<lambda>x. fsub (fsub x (fdg_jumps ! i)) dc_offset) raw)
     \<and> get_band (swath_data' i) ''Ur'' = Inr ur \<and> length ur = length raw
     \<and> (\<forall>p<length raw.
          ur ! p =
            (if valid_doppler ! p \<noteq> Fin 2 then NaN
             else fdiv (fmul (Fin (- pi))
                          (fsub (fsub (fsub (raw ! p) (fdg_jumps ! i)) dc_offset)
                                (fww_at (swath_data i) p)))
                       (fmul (Fin wavenumber)
                          (fsin (fdiv (fmul (inci ! p) (Fin pi)) (Fin 180))))))"
  using add_corrected_bands_result [OF correct_loop_pointwise [OF assms]] .

lemma has_band_add_band:
  "has_band (add_band name array sw) name' \<longleftrightarrow> name' = name \<or> has_band sw name'"
  by (simp add: has_band_def add_band_def)

text \<open>The loop body returns for a subswath whose bands can be read and have one size.\<close>

lemma add_corrected_bands_returns:
  assumes "get_band sw ''raw_fdg'' = Inr raw"
    and "get_band sw ''incidence_angle'' = Inr inci"
    and "get_band sw ''valid_doppler'' = Inr valid_doppler"
    and "length inci = length raw" and "length valid_doppler = length raw"
    and "\<And>fww. bands sw ''fww'' = Some fww \<Longrightarrow> length fww = length raw"
  shows "\<exists>sw'. add_corrected_bands jump dc_offset sw = Inr sw'"
proof (cases "bands sw ''fww''")
  case None
  then have "\<not> has_band sw ''fww''" by (simp add: has_band_def)
  then show ?thesis
    using assms(1-5)
    by (simp add: add_corrected_bands_def add_band_wkv_def wkv_fdg wkv_Ur Let_def bind_err_def
          get_band_add_band has_band_add_band pixelwise_def to_theta_def mask_invalid_def)
next
  case (Some fww)
  then have "has_band sw ''fww''" "get_band sw ''fww'' = Inr fww" "length fww = length raw"
    using assms(6) by (simp_all add: has_band_def get_band_def)
  then show ?thesis
    using assms(1-5)
    by (simp add: add_corrected_bands_def add_band_wkv_def wkv_fdg wkv_Ur Let_def bind_err_def
          get_band_add_band has_band_add_band pixelwise_def to_theta_def mask_invalid_def)
qed

lemma for_range_returns:
  assumes "distinct idx"
    and "\<And>i sd. body i sd = bind_err (f i (sd i)) (\<lambda>sw. Inr (sd(i := sw)))"
    and "\<forall>i\<in>set idx. \<exists>sw. f i (sd i) = Inr sw"
  shows "\<exists>sd'. for_range idx body sd = Inr sd'"
  using assms(1,3)
proof (induction idx arbitrary: sd)
  case Nil
  then show ?case by simp
next
  case (Cons j rest)
  from Cons.prems(2) obtain sw where sw: "f j (sd j) = Inr sw" by auto
  have step: "body j sd = Inr (sd(j := sw))" by (simp add: assms(2) sw bind_err_def)
  from Cons.prems(1) have d: "distinct rest" "j \<notin> set rest" by simp_all
  have r: "\<forall>i\<in>set rest. \<exists>sw'. f i ((sd(j := sw)) i) = Inr sw'"
  proof
    fix i assume i: "i \<in> set rest"
    then have "(sd(j := sw)) i = sd i" using d(2) by auto
    moreover have "\<exists>sw'. f i (sd i) = Inr sw'" using Cons.prems(2) i by simp
    ultimately show "\<exists>sw'. f i ((sd(j := sw)) i) = Inr sw'" by simp
  qed
  from Cons.IH [OF d(1) r]
  obtain sd' where "for_range rest body (sd(j := sw)) = Inr sd'" by blast
  then show ?case using step by simp
qed

lemma correct_loop_derived:
  "\<exists>sd'. for_range [0..<n_subswaths] (correct_step fdg_jumps dc_offset) (\<lambda>i. derived_swath)
            = Inr sd'"
proof (rule for_range_returns [where f = "\<lambda>i. add_corrected_bands (fdg_jumps ! i) dc_offset"])
  show "distinct [0..<n_subswaths]" by simp
next
  fix i sd
  show "correct_step fdg_jumps dc_offset i sd
          = bind_err (add_corrected_bands (fdg_jumps ! i) dc_offset (sd i))
              (\<lambda>sw. Inr (sd(i := sw)))"
    by (simp add: correct_step_def)
next
  show "\<forall>i\<in>set [0..<n_subswaths].
          \<exists>sw. add_corrected_bands (fdg_jumps ! i) dc_offset derived_swath = Inr sw"
    using add_corrected_bands_returns [OF get_band_derived(1-3)]
    by (simp add: get_band_derived(6))
qed

theorem band_corrector_bands_witness:
  "\<exists>sd'. for_range [0..<n_subswaths] (correct_step [Fin 0, Fin 5, Fin 0, Fin 0, Fin 0] (Fin 1))
             (\<lambda>i. derived_swath) = Inr sd'
        \<and> get_band (sd' 1) ''fdg'' = Inr [Fin 94, Fin 94]
        \<and> (\<exists>ur. get_band (sd' 1) ''Ur'' = Inr ur \<and> ur ! 1 = NaN)"
proof -
  obtain sd' where run: "for_range [0..<n_subswaths]
      (correct_step [Fin 0, Fin 5, Fin 0, Fin 0, Fin 0] (Fin 1)) (\<lambda>i. derived_swath) = Inr sd'"
    using correct_loop_derived by blast
  have one: "(1::nat) < n_subswaths" by (simp add: n_subswaths_def)
  from band_corrector_bands [OF run one]
  have "get_band (sd' 1) ''fdg'' = Inr [Fin 94, Fin 94]
      \<and> (\<exists>ur. get_band (sd' 1) ''Ur'' = Inr ur \<and> ur ! 1 = NaN)"
    by (auto simp: get_band_derived fsub_def)
  with run show ?thesis by blast
qed

text \<open>
  Claim C7. When no land pixel of the reference subswath passes the threshold, the offset
  is NaN, and after the correction loop every pixel of every subswath's \<open>fdg\<close> band is
  NaN.
\<close>

theorem empty_bias_sample_propagates:
  assumes "land_bias_second swath_data = Inr (i_ref, dc_offset)"
    and "retained_pixels (swath_data i_ref) = Inr []"
    and "for_range [0..<n_subswaths] (correct_step fdg_jumps dc_offset) swath_data
           = Inr swath_data'"
    and "i < n_subswaths"
  shows "dc_offset = NaN
     \<and> (\<exists>raw. get_band (swath_data i) ''raw_fdg'' = Inr raw
             \<and> get_band (swath_data' i) ''fdg'' = Inr (replicate (length raw) NaN))"
proof -
  from assms(1) have "dc_offset_second (swath_data i_ref) = Inr dc_offset"
    unfolding land_bias_second_def by (auto simp: bind_err_Inr_iff Let_def)
  then have nan: "dc_offset = NaN"
    unfolding dc_offset_second_def assms(2) by (simp add: bind_err_def nanmean_def)
  from add_corrected_bands_result [OF correct_loop_pointwise [OF assms(3,4)]]
  obtain raw where raw: "get_band (swath_data i) ''raw_fdg'' = Inr raw"
    and fdg: "get_band (swath_data' i) ''fdg''
                = Inr (map (\<lambda>x. fsub (fsub x (fdg_jumps ! i)) dc_offset) raw)"
    by blast
  have "map (\<lambda>x. fsub (fsub x (fdg_jumps ! i)) dc_offset) raw = replicate (length raw) NaN"
    unfolding nan by (simp add: map_replicate_const)
  with raw fdg nan show ?thesis by simp
qed

lemma get_band_no_land:
  "get_band no_land_swath ''raw_fdg'' = Inr [Fin 100, Fin 100]"
  "get_band no_land_swath ''incidence_angle'' = Inr [Fin 30, Fin 30]"
  "get_band no_land_swath ''valid_doppler'' = Inr [Fin 2, Fin 0]"
  "get_band no_land_swath ''valid_land_doppler'' = Inr [Fin 0, Fin 0]"
  "get_band no_land_swath ''dc_std'' = Inr [Fin 1, Fin 1]"
  "bands no_land_swath ''fww'' = None"
  by (simp_all add: no_land_swath_def get_band_def)

lemma retained_pixels_no_land: "retained_pixels no_land_swath = Inr []"
  by (simp add: retained_pixels_def get_band_no_land bind_err_def select_def)

lemma land_bias_second_no_land: "land_bias_second (\<lambda>i. no_land_swath) = Inr (2, NaN)"
proof -
  have c: "collect [0..<n_subswaths] (\<lambda>i. land_pixels_second no_land_swath)
             = Inr [0, 0, 0, 0, 0]"
    unfolding subswath_range
    by (simp add: land_pixels_second_counts [OF get_band_no_land(4)])
  have r: "choose_i_ref [0, 0, 0, 0, 0] = 2" by (simp add: choose_i_ref_def n_subswaths_def)
  have d: "dc_offset_second no_land_swath = Inr NaN"
    by (simp add: dc_offset_second_def retained_pixels_no_land bind_err_def nanmean_def)
  show ?thesis by (simp only: land_bias_second_def c bind_err_Inr Let_def r d)
qed

lemma correct_loop_no_land:
  "\<exists>sd'. for_range [0..<n_subswaths] (correct_step fdg_jumps dc_offset) (\<lambda>i. no_land_swath)
            = Inr sd'"
proof (rule for_range_returns [where f = "\<lambda>i. add_corrected_bands (fdg_jumps ! i) dc_offset"])
  show "distinct [0..<n_subswaths]" by simp
next
  fix i sd
  show "correct_step fdg_jumps dc_offset i sd
          = bind_err (add_corrected_bands (fdg_jumps ! i) dc_offset (sd i))
              (\<lambda>sw. Inr (sd(i := sw)))"
    by (simp add: correct_step_def)
next
  show "\<forall>i\<in>set [0..<n_subswaths].
          \<exists>sw. add_corrected_bands (fdg_jumps ! i) dc_offset no_land_swath = Inr sw"
    using add_corrected_bands_returns [OF get_band_no_land(1-3)]
    by (simp add: get_band_no_land(6))
qed

theorem empty_bias_sample_propagates_witness:
  "land_bias_second (\<lambda>i. no_land_swath) = Inr (2, NaN)
   \<and> retained_pixels no_land_swath = Inr []
   \<and> (\<exists>sd'. for_range [0..<n_subswaths]
                (correct_step [Fin 0, Fin 0, Fin 0, Fin 0, Fin 0] NaN) (\<lambda>i. no_land_swath)
              = Inr sd'
            \<and> get_band (sd' 4) ''fdg'' = Inr [NaN, NaN])"
proof -
  obtain sd' where run: "for_range [0..<n_subswaths]
      (correct_step [Fin 0, Fin 0, Fin 0, Fin 0, Fin 0] NaN) (\<lambda>i. no_land_swath) = Inr sd'"
    using correct_loop_no_land by blast
  have four: "(4::nat) < n_subswaths" by (simp add: n_subswaths_def)
  from empty_bias_sample_propagates
         [OF land_bias_second_no_land retained_pixels_no_land run four]
  have "get_band (sd' 4) ''fdg'' = Inr [NaN, NaN]"
    by (simp add: get_band_no_land numeral_2_eq_2)
  with run land_bias_second_no_land retained_pixels_no_land show ?thesis by blast
qed

subsection \<open>Unreadable subswaths and the returned flag\<close>

lemma corrupted_get_band:
  "corrupted_at_load sw \<longleftrightarrow> get_band sw ''incidence_angle'' = Inl (BandError ''incidence_angle'')"
  by (auto simp: corrupted_at_load_def get_band_def split: option.splits)

lemma derive_step_corrupted:
  "corrupted_at_load (fst st i) \<Longrightarrow> derive_step c i st = Inr (fst st, True)"
  by (simp add: derive_step_def corrupted_get_band)

lemma derive_step_readable:
  "\<not> corrupted_at_load (fst st i) \<Longrightarrow>
   derive_step c i st =
     bind_err (derive_doppler c (fst st i)) (\<lambda>sw. Inr ((fst st)(i := sw), False))"
  by (auto simp: derive_step_def corrupted_at_load_def get_band_def Let_def split: option.splits)

text \<open>One turn touches no other subswath, and leaves a corrupted one as it was.\<close>

lemma derive_step_frame:
  assumes "derive_step c i st = Inr st'"
  shows "(\<forall>j. j \<noteq> i \<longrightarrow> fst st' j = fst st j)
       \<and> (corrupted_at_load (fst st i) \<longrightarrow> fst st' = fst st)
       \<and> snd st' = corrupted_at_load (fst st i)"
proof (cases "corrupted_at_load (fst st i)")
  case True
  with assms show ?thesis by (auto simp: derive_step_corrupted)
next
  case False
  with assms obtain sw where "st' = ((fst st)(i := sw), False)"
    by (auto simp: derive_step_readable bind_err_Inr_iff)
  with False show ?thesis by simp
qed

lemma derive_loop_frame:
  assumes "for_range idx (derive_step c) st = Inr st'"
  shows "(\<forall>j. j \<notin> set idx \<longrightarrow> fst st' j = fst st j)
       \<and> (\<forall>j. corrupted_at_load (fst st j) \<longrightarrow> fst st' j = fst st j)"
  using assms
proof (induction idx arbitrary: st)
  case Nil
  then show ?case by simp
next
  case (Cons i rest)
  from Cons.prems obtain s1 where s1: "derive_step c i st = Inr s1"
    "for_range rest (derive_step c) s1 = Inr st'"
    unfolding for_range_Cons_Inr by blast
  note f = derive_step_frame [OF s1(1)]
  note ih = Cons.IH [OF s1(2)]
  have a: "\<forall>j. j \<notin> set (i # rest) \<longrightarrow> fst st' j = fst st j"
    using f ih by simp
  have b: "\<forall>j. corrupted_at_load (fst st j) \<longrightarrow> fst st' j = fst st j"
  proof (intro allI impI)
    fix j assume cj: "corrupted_at_load (fst st j)"
    have "fst s1 j = fst st j"
    proof (cases "j = i")
      case True
      with cj f show ?thesis by simp
    next
      case False
      with f show ?thesis by simp
    qed
    with cj ih show "fst st' j = fst st j" by simp
  qed
  from a b show ?case by blast
qed

text \<open>
  The flag after the loading loop tells whether the last subswath was unreadable, and
  nothing about the others: line 129 clears it at the top of every turn.
\<close>

lemma for_range_snoc_Inr:
  "for_range (idx @ [j]) body s = Inr s' \<longleftrightarrow>
     (\<exists>s1. for_range idx body s = Inr s1 \<and> body j s1 = Inr s')"
proof (induction idx arbitrary: s)
  case Nil
  then show ?case by (cases "body j s") simp_all
next
  case (Cons i rest)
  then show ?case by (cases "body i s") simp_all
qed

lemma derive_loop_flag:
  assumes "for_range [0..<n_subswaths] (derive_step c) st = Inr st'"
  shows "snd st' = corrupted_at_load (fst st 4)"
proof -
  have "[0..<n_subswaths] = [0, 1, 2, 3] @ [4]" by (simp add: subswath_range)
  with assms obtain s4 where
    pre: "for_range [0, 1, 2, 3] (derive_step c) st = Inr s4"
    and last: "derive_step c 4 s4 = Inr st'"
    by (metis for_range_snoc_Inr)
  have "fst s4 4 = fst st 4" using derive_loop_frame [OF pre] by simp
  with derive_step_frame [OF last] show ?thesis by simp
qed

text \<open>
  A run in which a subswath is unreadable at load never returns: the correction loop
  reads the incidence angle of every subswath again (line 264), if an earlier loop has
  not raised before.
\<close>

lemma corrupted_subswath_aborts_run:
  assumes "i < n_subswaths" and "corrupted_at_load (swath_data i)"
  shows "\<exists>e. get_or_create c swath_data = Inl e"
proof (cases "get_or_create c swath_data")
  case (Inl e)
  then show ?thesis by blast
next
  case (Inr r)
  then obtain st1 second_bias fdg_jumps swath_data2 where
    load: "for_range [0..<n_subswaths] (derive_step c) (swath_data, False) = Inr st1"
    and corr: "for_range [0..<n_subswaths] (correct_step fdg_jumps (snd second_bias)) (fst st1)
                 = Inr swath_data2"
    unfolding get_or_create_def by (auto simp: bind_err_Inr_iff Let_def)
  have same: "fst st1 i = swath_data i"
    using derive_loop_frame [OF load] assms(2) by simp
  from add_corrected_bands_result [OF correct_loop_pointwise [OF corr assms(1)]]
  obtain inci where "get_band (fst st1 i) ''incidence_angle'' = Inr inci" by blast
  with same assms(2) show ?thesis by (simp add: corrupted_get_band)
qed

lemma corrupted_unreadable: "corrupted_at_load unreadable_swath"
  by (simp add: corrupted_at_load_def unreadable_swath_def)

lemma not_corrupted_raw: "\<not> corrupted_at_load raw_swath"
  by (simp add: corrupted_at_load_def raw_swath_def)

lemma get_band_raw:
  "get_band raw_swath ''incidence_angle'' = Inr [Fin 30, Fin 30]"
  "get_band raw_swath ''valid_doppler'' = Inr [Fin 2, Fin 0]"
  "get_band raw_swath ''valid_land_doppler'' = Inr [Fin 1, Fin 0]"
  "get_band raw_swath ''dc_std'' = Inr [Fin 1, Fin 1]"
  by (simp_all add: raw_swath_def get_band_def)

lemma derive_doppler_quiet_raw: "\<exists>sw. derive_doppler quiet_collaborators raw_swath = Inr sw"
  by (simp add: derive_doppler_def quiet_collaborators_def add_band_wkv_def Let_def
        wkv_short_name_def get_band_add_band get_band_raw bind_err_def pixelwise_def
        to_theta_def mask_invalid_def)

lemma derive_loop_returns:
  assumes "distinct idx"
    and "\<forall>i\<in>set idx. corrupted_at_load (sd i) \<or> (\<exists>sw. derive_doppler c (sd i) = Inr sw)"
  shows "\<exists>st'. for_range idx (derive_step c) (sd, b) = Inr st'"
  using assms
proof (induction idx arbitrary: sd b)
  case Nil
  then show ?case by simp
next
  case (Cons i rest)
  from Cons.prems(1) have d: "distinct rest" "i \<notin> set rest" by simp_all
  have "\<exists>s1. derive_step c i (sd, b) = Inr s1"
  proof (cases "corrupted_at_load (sd i)")
    case True
    then have "derive_step c i (sd, b) = Inr (sd, True)"
      using derive_step_corrupted [of "(sd, b)" i c] by simp
    then show ?thesis by blast
  next
    case False
    with Cons.prems(2) obtain sw where "derive_doppler c (sd i) = Inr sw" by auto
    with False have "derive_step c i (sd, b) = Inr (sd(i := sw), False)"
      using derive_step_readable [of "(sd, b)" i c] by (simp add: bind_err_Inr)
    then show ?thesis by blast
  qed
  then obtain s1 where s1: "derive_step c i (sd, b) = Inr s1" by blast
  have same: "\<forall>j\<in>set rest. fst s1 j = sd j"
    using derive_step_frame [OF s1] d(2) by auto
  have "\<forall>j\<in>set rest. corrupted_at_load (fst s1 j)
           \<or> (\<exists>sw. derive_doppler c (fst s1 j) = Inr sw)"
    using Cons.prems(2) same by simp
  from Cons.IH [OF d(1) this, of "snd s1"]
  obtain st' where "for_range rest (derive_step c) s1 = Inr st'" by auto
  with s1 show ?case by simp
qed

text \<open>Pointwise reading of the loading loop.\<close>

lemma derive_loop_pointwise:
  assumes "distinct idx" and "for_range idx (derive_step c) st = Inr st'"
    and "i \<in> set idx" and "\<not> corrupted_at_load (fst st i)"
  shows "derive_doppler c (fst st i) = Inr (fst st' i)"
  using assms
proof (induction idx arbitrary: st)
  case Nil
  then show ?case by simp
next
  case (Cons k rest)
  from Cons.prems(2) obtain s1 where s1: "derive_step c k st = Inr s1"
    "for_range rest (derive_step c) s1 = Inr st'"
    unfolding for_range_Cons_Inr by blast
  from Cons.prems(1) have d: "distinct rest" "k \<notin> set rest" by simp_all
  note f = derive_step_frame [OF s1(1)]
  show ?case
  proof (cases "i = k")
    case True
    with s1(1) Cons.prems(4) obtain sw where sw: "derive_doppler c (fst st i) = Inr sw"
      "s1 = ((fst st)(i := sw), False)"
      by (auto simp: derive_step_readable bind_err_Inr_iff)
    have "fst st' i = fst s1 i" using derive_loop_frame [OF s1(2)] d(2) True by simp
    with sw show ?thesis by simp
  next
    case False
    with Cons.prems(3) have i: "i \<in> set rest" by simp
    have "fst s1 i = fst st i" using f False by simp
    with Cons.IH [OF d(1) s1(2) i] Cons.prems(4) show ?thesis by simp
  qed
qed

text \<open>What the derivation leaves in a subswath when no wind field matches.\<close>

lemma derive_doppler_quiet:
  assumes "derive_doppler quiet_collaborators sw = Inr sw'"
  shows "get_band sw' ''raw_fdg'' = Inr [Fin 100, Fin 100]
       \<and> get_band sw' ''incidence_angle'' = get_band sw ''incidence_angle''
       \<and> get_band sw' ''valid_doppler'' = get_band sw ''valid_doppler''
       \<and> get_band sw' ''valid_land_doppler'' = get_band sw ''valid_land_doppler''
       \<and> get_band sw' ''dc_std'' = get_band sw ''dc_std''
       \<and> has_band sw' ''fww'' = has_band sw ''fww''"
proof -
  from assms obtain vcurrent where
    "sw' = add_band ''corrected_sigma0_VV'' [Fin 1, Fin 1]
            (add_band ''raw_fdg'' [Fin 100, Fin 100]
              (add_band ''raw_Ur'' vcurrent (add_band ''dca'' [Fin 0, Fin 0] sw)))"
    unfolding derive_doppler_def
    by (auto simp: quiet_collaborators_def add_band_wkv_def wkv_short_name_def Let_def
          bind_err_Inr_iff)
  then show ?thesis by (simp add: get_band_add_band has_band_add_band)
qed

lemma load_first_unreadable:
  "\<exists>st1. for_range [0..<n_subswaths] (derive_step quiet_collaborators) (first_unreadable, False)
            = Inr st1
        \<and> fst st1 0 = unreadable_swath
        \<and> (\<forall>i\<in>{1, 2, 3, 4}. get_band (fst st1 i) ''valid_land_doppler'' = Inr [Fin 1, Fin 0])"
proof -
  have "\<forall>i\<in>set [0..<n_subswaths]. corrupted_at_load (first_unreadable i)
          \<or> (\<exists>sw. derive_doppler quiet_collaborators (first_unreadable i) = Inr sw)"
    by (simp add: first_unreadable_def corrupted_unreadable derive_doppler_quiet_raw)
  from derive_loop_returns [OF distinct_upt this, of False]
  obtain st1 where run: "for_range [0..<n_subswaths] (derive_step quiet_collaborators)
      (first_unreadable, False) = Inr st1" by blast
  have z: "fst st1 0 = unreadable_swath"
    using derive_loop_frame [OF run] corrupted_unreadable by (simp add: first_unreadable_def)
  have "get_band (fst st1 i) ''valid_land_doppler'' = Inr [Fin 1, Fin 0]"
    if "i \<in> {1, 2, 3, 4}" for i
  proof -
    from that have i: "i \<in> set [0..<n_subswaths]" "i \<noteq> 0" by (auto simp: n_subswaths_def)
    then have "\<not> corrupted_at_load (fst (first_unreadable, False) i)"
      by (simp add: first_unreadable_def not_corrupted_raw)
    from derive_loop_pointwise [OF _ run i(1) this]
    have "derive_doppler quiet_collaborators raw_swath = Inr (fst st1 i)"
      using i(2) by (simp add: first_unreadable_def)
    from derive_doppler_quiet [OF this] show ?thesis by (simp add: get_band_raw)
  qed
  with run z show ?thesis by blast
qed

lemma get_band_unreadable:
  "get_band unreadable_swath ''valid_land_doppler'' = Inr [Fin 1, Fin 1]"
  "get_band unreadable_swath ''dc_std'' = Inr [Fin 1, Fin 1]"
  "get_band unreadable_swath ''raw_fdg'' = Inl (BandError ''raw_fdg'')"
  by (simp_all add: unreadable_swath_def get_band_def)

lemma land_pixels_first_unreadable:
  "land_pixels_first unreadable_swath = Inl (BandError ''raw_fdg'')"
  by (simp add: land_pixels_first_def get_band_unreadable bind_err_def select_def argwhere_def)

lemma dc_offset_second_unreadable:
  "dc_offset_second unreadable_swath = Inl (BandError ''raw_fdg'')"
  by (simp add: dc_offset_second_def retained_pixels_def get_band_unreadable bind_err_def
        select_def)

text \<open>
  Claim C3, at an acquisition whose first subswath cannot deliver its incidence angle and
  whose other four are sound: the run ends in the exception of line 209, where the first
  bias block reads the \<open>raw_fdg\<close> band that the skipped subswath never received. No flag
  is returned.
\<close>

theorem unreadable_first_subswath_raises:
  "corrupted_at_load (first_unreadable 0)
   \<and> get_or_create quiet_collaborators first_unreadable = Inl (BandError ''raw_fdg'')"
proof -
  from load_first_unreadable obtain st1 where
    run: "for_range [0..<n_subswaths] (derive_step quiet_collaborators) (first_unreadable, False)
            = Inr st1"
    and z: "fst st1 0 = unreadable_swath" by blast
  have "collect [0..<n_subswaths] (\<lambda>i. land_pixels_first (fst st1 i))
          = Inl (BandError ''raw_fdg'')"
    unfolding subswath_range by (simp add: z land_pixels_first_unreadable)
  then have "land_bias_first (fst st1) = Inl (BandError ''raw_fdg'')"
    unfolding land_bias_first_def by (simp add: bind_err_Inl)
  then have "get_or_create quiet_collaborators first_unreadable = Inl (BandError ''raw_fdg'')"
    unfolding get_or_create_def run by (simp add: bind_err_Inr bind_err_Inl)
  then show ?thesis by (simp add: first_unreadable_def corrupted_unreadable)
qed

text \<open>
  Claim C2, at the same acquisition: after the loading loop the unreadable subswath is
  still among the five the counting loop visits; its two land pixels are counted, it is
  chosen as the reference, and the offset computation raises on its missing \<open>raw_fdg\<close>.
\<close>

theorem unreadable_subswath_is_counted:
  "\<exists>st1. for_range [0..<n_subswaths] (derive_step quiet_collaborators) (first_unreadable, False)
            = Inr st1
        \<and> corrupted_at_load (fst st1 0)
        \<and> collect [0..<n_subswaths] (\<lambda>i. land_pixels_second (fst st1 i)) = Inr [2, 1, 1, 1, 1]
        \<and> choose_i_ref [2, 1, 1, 1, 1] = 0
        \<and> land_bias_second (fst st1) = Inl (BandError ''raw_fdg'')"
proof -
  from load_first_unreadable obtain st1 where
    run: "for_range [0..<n_subswaths] (derive_step quiet_collaborators) (first_unreadable, False)
            = Inr st1"
    and z: "fst st1 0 = unreadable_swath"
    and o: "\<forall>i\<in>{1, 2, 3, 4}. get_band (fst st1 i) ''valid_land_doppler'' = Inr [Fin 1, Fin 0]"
    by blast
  have n0: "land_pixels_second (fst st1 0) = Inr 2"
    unfolding z using land_pixels_second_counts [OF get_band_unreadable(1)] by simp
  have n: "land_pixels_second (fst st1 i) = Inr 1" if "i \<in> {1, 2, 3, 4}" for i
  proof -
    from o that have g: "get_band (fst st1 i) ''valid_land_doppler'' = Inr [Fin 1, Fin 0]"
      by blast
    show ?thesis using land_pixels_second_counts [OF g] by simp
  qed
  have c: "collect [0..<n_subswaths] (\<lambda>i. land_pixels_second (fst st1 i)) = Inr [2, 1, 1, 1, 1]"
    unfolding subswath_range by (simp add: n0 n)
  have r: "choose_i_ref [2, 1, 1, 1, 1] = 0" by (simp add: choose_i_ref_def)
  have "land_bias_second (fst st1) = Inl (BandError ''raw_fdg'')"
    by (simp only: land_bias_second_def c bind_err_Inr Let_def r z dc_offset_second_unreadable
          bind_err_Inl)
  with run z c r corrupted_unreadable show ?thesis by auto
qed

lemma export_step_frame:
  assumes "export_step c i st = Inr st'"
  shows "export_ok c (fst st i)
       \<and> fst st' = (fst st)(i := reproject c (fst st i))
       \<and> snd st' = (snd st \<or> corrupted_at_load (reproject c (fst st i)))"
  using assms
  by (auto simp: export_step_def Let_def corrupted_at_load_def get_band_def
        split: if_splits option.splits)

lemma export_loop_frame:
  assumes "distinct idx" and "for_range idx (export_step c) st = Inr st'"
  shows "(\<forall>i\<in>set idx. fst st' i = reproject c (fst st i))
       \<and> (\<forall>i. i \<notin> set idx \<longrightarrow> fst st' i = fst st i)
       \<and> snd st' = (snd st \<or> (\<exists>i\<in>set idx. corrupted_at_load (fst st' i)))"
  using assms
proof (induction idx arbitrary: st)
  case Nil
  then show ?case by simp
next
  case (Cons k rest)
  from Cons.prems(2) obtain s1 where s1: "export_step c k st = Inr s1"
    "for_range rest (export_step c) s1 = Inr st'"
    unfolding for_range_Cons_Inr by blast
  from Cons.prems(1) have d: "distinct rest" "k \<notin> set rest" by simp_all
  note f = export_step_frame [OF s1(1)]
  note ih = Cons.IH [OF d(1) s1(2)]
  have k: "fst st' k = reproject c (fst st k)" using ih f d(2) by simp
  have r: "\<forall>i\<in>set rest. fst st' i = reproject c (fst st i)"
    using ih f d(2) by auto
  have o: "\<forall>i. i \<notin> set (k # rest) \<longrightarrow> fst st' i = fst st i"
    using ih f by simp
  have "snd st' = (snd s1 \<or> (\<exists>i\<in>set rest. corrupted_at_load (fst st' i)))"
    using ih by blast
  also have "snd s1 = (snd st \<or> corrupted_at_load (fst st' k))" using f k by simp
  finally have "snd st' = (snd st \<or> (\<exists>i\<in>set (k # rest). corrupted_at_load (fst st' i)))"
    by auto
  with k r o show ?case by simp
qed

text \<open>
  Of a run that returns: no subswath was unreadable at load, and the flag says whether
  every subswath can still deliver its incidence angle after its reprojection.
\<close>

lemma returned_flag:
  assumes "get_or_create c swath_data = Inr (swath_data', flag)"
  shows "(\<forall>i<n_subswaths. \<not> corrupted_at_load (swath_data i))
       \<and> flag = (\<forall>i<n_subswaths. \<not> corrupted_at_load (swath_data' i))"
proof -
  have load_ok: "\<forall>i<n_subswaths. \<not> corrupted_at_load (swath_data i)"
    using corrupted_subswath_aborts_run [of _ swath_data c] assms by auto
  from assms have "\<exists>st1 swath_data2 st3.
      for_range [0..<n_subswaths] (derive_step c) (swath_data, False) = Inr st1
    \<and> for_range [0..<n_subswaths] (export_step c) (swath_data2, snd st1) = Inr st3
    \<and> swath_data' = fst st3 \<and> flag = (\<not> snd st3)"
    unfolding get_or_create_def bind_err_Inr_iff Let_def by fastforce
  then obtain st1 swath_data2 st3 where
    load: "for_range [0..<n_subswaths] (derive_step c) (swath_data, False) = Inr st1"
    and export: "for_range [0..<n_subswaths] (export_step c) (swath_data2, snd st1) = Inr st3"
    and out: "swath_data' = fst st3" "flag = (\<not> snd st3)"
    by blast
  have "snd st1 = corrupted_at_load (swath_data 4)"
    using derive_loop_flag [OF load] by simp
  then have "\<not> snd st1" using load_ok by (simp add: n_subswaths_def)
  with export_loop_frame [OF distinct_upt export]
  have "snd st3 = (\<exists>i\<in>set [0..<n_subswaths]. corrupted_at_load (fst st3 i))" by simp
  then have "flag = (\<forall>i<n_subswaths. \<not> corrupted_at_load (swath_data' i))"
    using out by auto
  with load_ok show ?thesis by blast
qed

text \<open>A run without any failure.\<close>

lemma add_corrected_bands_keeps:
  assumes "add_corrected_bands jump dc_offset sw = Inr sw'"
    and "name \<noteq> ''fdg''" and "name \<noteq> ''Ur''"
  shows "get_band sw' name = get_band sw name"
proof -
  from assms(1) obtain fdg vcurrent where
    "sw' = add_band ''Ur'' vcurrent (add_band ''fdg'' fdg sw)"
    unfolding add_corrected_bands_def add_band_wkv_def wkv_fdg wkv_Ur
    by (auto simp: bind_err_Inr_iff Let_def)
  with assms(2,3) show ?thesis by (simp add: get_band_add_band)
qed

lemma land_bias_of_bands:
  assumes "get_band sw ''valid_land_doppler'' = Inr [Fin 1, Fin 0]"
    and "get_band sw ''dc_std'' = Inr [Fin 1, Fin 1]"
    and "get_band sw ''raw_fdg'' = Inr [Fin 100, Fin 100]"
  shows "land_pixels_first sw = Inr 1" and "dc_offset_first sw = Inr (Fin 100)"
    and "land_pixels_second sw = Inr 1" and "dc_offset_second sw = Inr (Fin 100)"
proof -
  show "land_pixels_first sw = Inr 1"
    by (simp add: land_pixels_first_def assms bind_err_def select_def
          std_threshold_one argwhere_def take_pixels_def count_true_def)
  show "dc_offset_first sw = Inr (Fin 100)"
    by (simp add: dc_offset_first_def assms bind_err_def select_def
          std_threshold_one nanmean_def fsum_def)
  then show "dc_offset_second sw = Inr (Fin 100)" by (simp add: dc_offset_first_second)
  show "land_pixels_second sw = Inr 1"
    using land_pixels_second_counts [OF assms(1)] by simp
qed

lemma export_step_quiet:
  "export_step quiet_collaborators i st
     = Inr (fst st, snd st \<or> corrupted_at_load (fst st i))"
  by (cases st)
     (auto simp: export_step_def quiet_collaborators_def Let_def corrupted_at_load_def
        get_band_def split: option.splits)

lemma export_loop_quiet:
  "\<exists>b. for_range idx (export_step quiet_collaborators) (sd, flag) = Inr (sd, b)"
proof (induction idx arbitrary: flag)
  case Nil
  then show ?case by simp
next
  case (Cons i rest)
  then show ?case by (simp add: export_step_quiet)
qed

lemma quiet_run_succeeds:
  "\<exists>swath_data'. get_or_create quiet_collaborators (\<lambda>i. raw_swath) = Inr (swath_data', True)"
proof -
  let ?c = quiet_collaborators
  have "\<forall>i\<in>set [0..<n_subswaths]. corrupted_at_load raw_swath
          \<or> (\<exists>sw. derive_doppler ?c raw_swath = Inr sw)"
    by (simp add: derive_doppler_quiet_raw)
  from derive_loop_returns [OF distinct_upt this, of False]
  obtain st1 where load: "for_range [0..<n_subswaths] (derive_step ?c) (\<lambda>i. raw_swath, False)
      = Inr st1" by blast
  have d: "derive_doppler ?c raw_swath = Inr (fst st1 i)" if "i < n_subswaths" for i
    using derive_loop_pointwise [OF distinct_upt load, of i] that
    by (simp add: not_corrupted_raw)
  note b = derive_doppler_quiet [OF d, unfolded get_band_raw]
  have idx: "\<forall>i\<in>set [0, 1, 2, 3, 4]. i < n_subswaths" by (simp add: n_subswaths_def)
  have lb1: "land_bias_first (fst st1) = Inr (0, Fin 100)"
  proof -
    have "collect [0..<n_subswaths] (\<lambda>i. land_pixels_first (fst st1 i)) = Inr [1, 1, 1, 1, 1]"
      unfolding subswath_range using idx b by (simp add: land_bias_of_bands(1))
    moreover have "choose_i_ref [1, 1, 1, 1, 1] = 0" by (simp add: choose_i_ref_def)
    moreover have "dc_offset_first (fst st1 0) = Inr (Fin 100)"
      using idx b by (simp add: land_bias_of_bands(2))
    ultimately show ?thesis
      by (simp only: land_bias_first_def bind_err_Inr Let_def)
  qed
  have lb2: "land_bias_second (fst st1) = Inr (0, Fin 100)"
  proof -
    have "collect [0..<n_subswaths] (\<lambda>i. land_pixels_second (fst st1 i)) = Inr [1, 1, 1, 1, 1]"
      unfolding subswath_range using idx b by (simp add: land_bias_of_bands(3))
    moreover have "choose_i_ref [1, 1, 1, 1, 1] = 0" by (simp add: choose_i_ref_def)
    moreover have "dc_offset_second (fst st1 0) = Inr (Fin 100)"
      using idx b by (simp add: land_bias_of_bands(4))
    ultimately show ?thesis
      by (simp only: land_bias_second_def bind_err_Inr Let_def)
  qed
  have g: "bind_err (get_band (fst st1 i) ''raw_fdg'') (\<lambda>raw. Inr (geocode ?c (fst st1 i) raw))
             = Inr \<lparr>swathmask = nine_of (Fin 1), band1 = nine_of (Fin 100)\<rparr>"
    if "i < n_subswaths" for i
    using b [OF that] by (simp add: bind_err_Inr quiet_collaborators_def)
  have gs: "collect [0..<n_subswaths]
              (\<lambda>i. bind_err (get_band (fst st1 i) ''raw_fdg'')
                     (\<lambda>raw. Inr (geocode ?c (fst st1 i) raw)))
            = Inr (map (\<lambda>i. \<lparr>swathmask = nine_of (Fin 1), band1 = nine_of (Fin 100)\<rparr>)
                     [0, 1, 2, 3, 4::nat])"
    unfolding subswath_range using idx g by simp
  have es: "collect [1..<n_subswaths]
             (\<lambda>i. bind_err
                (overlap_diff
                   (map (\<lambda>i. \<lparr>swathmask = nine_of (Fin 1), band1 = nine_of (Fin 100)\<rparr>)
                      [0, 1, 2, 3, 4::nat] ! i)
                   (map (\<lambda>i. \<lparr>swathmask = nine_of (Fin 1), band1 = nine_of (Fin 100)\<rparr>)
                      [0, 1, 2, 3, 4::nat] ! (i - 1)))
                jump_estimate)
           = Inr [Fin 0, Fin 0, Fin 0, Fin 0]"
    unfolding pair_range by (simp add: overlap_diff_nine bind_err_def jump_estimate_nine)
  have "dc_jumps ?c (fst st1) 0 = Inr (reference_jumps [Fin 0, Fin 0, Fin 0, Fin 0, Fin 0] 0)"
    by (simp only: dc_jumps_def gs bind_err_Inr es)
  then have jumps: "dc_jumps ?c (fst st1) 0 = Inr [Fin 0, Fin 0, Fin 0, Fin 0, Fin 0]"
    by (simp add: reference_jumps_def cumsum_def fsub_def)
  have "\<exists>sd2. for_range [0..<n_subswaths]
                (correct_step [Fin 0, Fin 0, Fin 0, Fin 0, Fin 0] (Fin 100)) (fst st1) = Inr sd2"
  proof (rule for_range_returns
      [where f = "\<lambda>i. add_corrected_bands ([Fin 0, Fin 0, Fin 0, Fin 0, Fin 0] ! i) (Fin 100)"])
    show "distinct [0..<n_subswaths]" by simp
  next
    fix i sd
    show "correct_step [Fin 0, Fin 0, Fin 0, Fin 0, Fin 0] (Fin 100) i sd
          = bind_err (add_corrected_bands ([Fin 0, Fin 0, Fin 0, Fin 0, Fin 0] ! i) (Fin 100) (sd i))
              (\<lambda>sw. Inr (sd(i := sw)))"
      by (simp add: correct_step_def)
  next
    show "\<forall>i\<in>set [0..<n_subswaths].
          \<exists>sw. add_corrected_bands ([Fin 0, Fin 0, Fin 0, Fin 0, Fin 0] ! i) (Fin 100) (fst st1 i)
                 = Inr sw"
    proof
      fix i assume "i \<in> set [0..<n_subswaths]"
      then have i: "i < n_subswaths" by simp
      note bi = b [OF i]
      have "bands (fst st1 i) ''fww'' = None"
        using bi by (simp add: has_band_def raw_swath_def)
      then show "\<exists>sw. add_corrected_bands ([Fin 0, Fin 0, Fin 0, Fin 0, Fin 0] ! i) (Fin 100)
                        (fst st1 i) = Inr sw"
        using add_corrected_bands_returns [of "fst st1 i" "[Fin 100, Fin 100]"
                "[Fin 30, Fin 30]" "[Fin 2, Fin 0]"] bi
        by simp
    qed
  qed
  then obtain sd2 where corr: "for_range [0..<n_subswaths]
      (correct_step [Fin 0, Fin 0, Fin 0, Fin 0, Fin 0] (Fin 100)) (fst st1) = Inr sd2" by blast
  have flag1: "\<not> snd st1" using derive_loop_flag [OF load] by (simp add: not_corrupted_raw)
  obtain flag3 where export: "for_range [0..<n_subswaths] (export_step ?c) (sd2, snd st1)
      = Inr (sd2, flag3)"
    using export_loop_quiet by blast
  have "\<not> corrupted_at_load (sd2 i)" if "i < n_subswaths" for i
  proof -
    have "get_band (sd2 i) ''incidence_angle'' = get_band (fst st1 i) ''incidence_angle''"
      using add_corrected_bands_keeps [OF correct_loop_pointwise [OF corr that]] by simp
    then show ?thesis using b [OF that] by (simp add: corrupted_get_band)
  qed
  with export_loop_frame [OF distinct_upt export] flag1 have "\<not> flag3" by simp
  have "get_or_create ?c (\<lambda>i. raw_swath) = Inr (sd2, \<not> flag3)"
    by (simp only: get_or_create_def load bind_err_Inr lb1 lb2 Let_def fst_conv snd_conv jumps
          corr export)
  with \<open>\<not> flag3\<close> show ?thesis by auto
qed

subsection \<open>Worked examples\<close>

text \<open>Two finite differences among four: one bin, a window of three, and the indexing raises.\<close>

lemma jump_estimate_two_samples:
  "jump_estimate [Fin 1, NaN, Fin 3, PInf] = Inl IndexError"
  using jump_estimate_too_few [of "[Fin 1, NaN, Fin 3, PInf]"]
  by (simp add: finite_values_def)

text \<open>
  The loading loop of the acquisition whose first subswath is unreadable ends with the
  flag cleared.
\<close>

lemma load_flag_forgets_first_subswath:
  "\<exists>st1. for_range [0..<n_subswaths] (derive_step quiet_collaborators) (first_unreadable, False)
            = Inr st1
        \<and> corrupted_at_load (first_unreadable 0) \<and> snd st1 = False"
proof -
  from load_first_unreadable obtain st1 where
    run: "for_range [0..<n_subswaths] (derive_step quiet_collaborators) (first_unreadable, False)
            = Inr st1" by blast
  from derive_loop_flag [OF run]
  have "snd st1 = False" by (simp add: first_unreadable_def not_corrupted_raw)
  moreover have "corrupted_at_load (first_unreadable 0)"
    by (simp add: first_unreadable_def corrupted_unreadable)
  ultimately show ?thesis using run by blast
qed

lemma get_band_biased:
  "get_band (biased_swath i) ''raw_fdg'' = Inr [Fin (100 + 5 * real i), Fin (100 + 5 * real i)]"
  "get_band (biased_swath i) ''incidence_angle'' = Inr [Fin 30, Fin 30]"
  "get_band (biased_swath i) ''valid_doppler'' = Inr [Fin 2, Fin 0]"
  "get_band (biased_swath i) ''valid_land_doppler'' = Inr [Fin 1, Fin 0]"
  "get_band (biased_swath i) ''dc_std'' = Inr [Fin 1, Fin 1]"
  "bands (biased_swath i) ''fww'' = None"
  by (simp_all add: biased_swath_def raw_swath_def get_band_def add_band_def)

lemma land_bias_second_biased: "land_bias_second biased_swath = Inr (0, Fin 100)"
proof -
  have "collect [0..<n_subswaths] (\<lambda>i. land_pixels_second (biased_swath i)) = Inr [1, 1, 1, 1, 1]"
    unfolding subswath_range
    by (simp add: land_pixels_second_counts [OF get_band_biased(4)])
  moreover have "choose_i_ref [1, 1, 1, 1, 1] = 0" by (simp add: choose_i_ref_def)
  moreover have "dc_offset_second (biased_swath 0) = Inr (Fin 100)"
    using land_bias_of_bands(4) [of "biased_swath 0"] get_band_biased [of 0] by simp
  ultimately show ?thesis by (simp only: land_bias_second_def bind_err_Inr Let_def)
qed

text \<open>
  The scenario of the specification: five subswaths whose \<open>raw_fdg\<close> carries the biases
  0, 5, 10, 15 and 20 Hz on 100 Hz. Subswath 0 is the reference, the offset is 100 Hz, the
  jumps are 0, 5, 10, 15 and 20 Hz, and the five corrected \<open>fdg\<close> bands agree.
\<close>

lemma biased_subswaths_converge:
  "land_bias_second biased_swath = Inr (0, Fin 100)
   \<and> dc_jumps quiet_collaborators biased_swath 0 = Inr [Fin 0, Fin 5, Fin 10, Fin 15, Fin 20]
   \<and> (\<exists>sd'. for_range [0..<n_subswaths]
                (correct_step [Fin 0, Fin 5, Fin 10, Fin 15, Fin 20] (Fin 100)) biased_swath
              = Inr sd'
            \<and> map (\<lambda>i. get_band (sd' i) ''fdg'') [0, 1, 2, 3, 4]
                = [Inr [Fin 0, Fin 0], Inr [Fin 0, Fin 0], Inr [Fin 0, Fin 0],
                   Inr [Fin 0, Fin 0], Inr [Fin 0, Fin 0]])"
proof -
  let ?jumps = "[Fin 0, Fin 5, Fin 10, Fin 15, Fin 20]"
  have j: "dc_jumps quiet_collaborators biased_swath 0 = Inr ?jumps"
    unfolding biased_estimates by (simp add: reference_jumps_def cumsum_def fsub_def)
  have "\<exists>sd'. for_range [0..<n_subswaths] (correct_step ?jumps (Fin 100)) biased_swath = Inr sd'"
  proof (rule for_range_returns
      [where f = "\<lambda>i. add_corrected_bands (?jumps ! i) (Fin 100)"])
    show "distinct [0..<n_subswaths]" by simp
  next
    fix i sd
    show "correct_step ?jumps (Fin 100) i sd
          = bind_err (add_corrected_bands (?jumps ! i) (Fin 100) (sd i))
              (\<lambda>sw. Inr (sd(i := sw)))"
      by (simp add: correct_step_def)
  next
    show "\<forall>i\<in>set [0..<n_subswaths].
          \<exists>sw. add_corrected_bands (?jumps ! i) (Fin 100) (biased_swath i) = Inr sw"
      using add_corrected_bands_returns [OF get_band_biased(1-3)]
      by (simp add: get_band_biased(6))
  qed
  then obtain sd' where
    run: "for_range [0..<n_subswaths] (correct_step ?jumps (Fin 100)) biased_swath = Inr sd'"
    by blast
  have fdg: "get_band (sd' i) ''fdg''
      = Inr (map (\<lambda>x. fsub (fsub x (?jumps ! i)) (Fin 100))
               [Fin (100 + 5 * real i), Fin (100 + 5 * real i)])"
    if "i < n_subswaths" for i
    using add_corrected_bands_result [OF correct_loop_pointwise [OF run that]]
    by (auto simp: get_band_biased)
  have m: "map (\<lambda>i. get_band (sd' i) ''fdg'') [0, 1, 2, 3, 4]
          = [Inr [Fin 0, Fin 0], Inr [Fin 0, Fin 0], Inr [Fin 0, Fin 0],
             Inr [Fin 0, Fin 0], Inr [Fin 0, Fin 0]]"
    by (simp add: fdg n_subswaths_def fsub_def)
  have "\<exists>sd'. for_range [0..<n_subswaths] (correct_step ?jumps (Fin 100)) biased_swath = Inr sd'
            \<and> map (\<lambda>i. get_band (sd' i) ''fdg'') [0, 1, 2, 3, 4]
                = [Inr [Fin 0, Fin 0], Inr [Fin 0, Fin 0], Inr [Fin 0, Fin 0],
                   Inr [Fin 0, Fin 0], Inr [Fin 0, Fin 0]]"
    by (rule exI [of _ sd']) (simp only: run m)
  with land_bias_second_biased j show ?thesis by simp
qed

end
